theory Spec2Isabelle
  imports Complex_Main
begin

section \<open>The MySQL dumper of klepto (pkg/dumper/mysql/mysql.go)\<close>

text \<open>
  A shallow embedding of the table writer: \<open>DumpTable\<close>, \<open>trunkInsert\<close>,
  \<open>insertIntoTable\<close>, \<open>insertIntoTableReplace\<close>, \<open>Close\<close> and
  \<open>quoteIdentifier\<close>. Go strings are byte strings, so they are \<open>string\<close>
  (lists of 8-bit characters). Errors are their message texts: \<open>fmt.Errorf\<close> with
  \<open>%w\<close> becomes the prefix followed by the wrapped error's text.
\<close>

subsection \<open>Field values and rows\<close>

text \<open>
  \<open>database.Row\<close> is a Go map from column names to \<open>interface{}\<close>. The two type
  switches of the source distinguish four dynamic types: the nil interface, \<open>string\<close>,
  \<open>[]uint8\<close>, and everything else; a value of any other type is kept with the name
  of its dynamic type.
\<close>

datatype field = FNil | FString string | FBytes string | FOther string

type_synonym Row = "string \<rightharpoonup> field"

text \<open>
  Indexing a Go map with a key it does not hold gives the zero value of the element
  type, which for \<open>interface{}\<close> is nil.
\<close>

definition index_row :: "Row \<Rightarrow> string \<Rightarrow> field" where
  "index_row row col = (case row col of None \<Rightarrow> FNil | Some v \<Rightarrow> v)"

text \<open>
  A Go function either returns or panics. A failed type assertion \<open>x.(string)\<close>
  panics; \<open>log.Panic\<close> logs and then panics with the logged message.
\<close>

datatype 'a outcome = Panicked string | Returned 'a

definition null :: string where
  "null = ''NULL''"

text \<open>The runtime error of the assertion \<open>x.(string)\<close> on a value of another type.\<close>

definition interface_conversion :: "string \<Rightarrow> string" where
  "interface_conversion ty = ''interface conversion: interface {} is '' @ ty @ '', not string''"

text \<open>
  The type switch of the streaming strategy (lines 231 to 241). In the default branch
  the value is neither nil nor a string, so the assertion \<open>row[col].(string)\<close> panics.
\<close>

fun rowValue :: "field \<Rightarrow> string outcome" where
  "rowValue FNil = Returned null"
| "rowValue (FString s) = Returned s"
| "rowValue (FBytes b) = Returned b"
| "rowValue (FOther ty) = Panicked (interface_conversion ty)"

text \<open>The type switch of the buffered replace strategy (lines 299 to 309).\<close>

fun rowValueReplace :: "field \<Rightarrow> string outcome" where
  "rowValueReplace FNil = Returned null"
| "rowValueReplace (FString s) = Returned s"
| "rowValueReplace (FBytes b) = Returned b"
| "rowValueReplace (FOther ty) = Panicked (interface_conversion ty)"

text \<open>
  The loop \<open>for i, col := range columns\<close> that fills \<open>rowValues\<close>, with the field
  encoder as a parameter; a panic at a column ends it.
\<close>

fun rowValuesWith :: "(field \<Rightarrow> string outcome) \<Rightarrow> string list \<Rightarrow> Row \<Rightarrow> string list outcome" where
  "rowValuesWith enc [] row = Returned []"
| "rowValuesWith enc (col # columns) row =
     (case enc (index_row row col) of
        Panicked m \<Rightarrow> Panicked m
      | Returned s \<Rightarrow>
          (case rowValuesWith enc columns row of
             Panicked m \<Rightarrow> Panicked m
           | Returned ss \<Rightarrow> Returned (s # ss)))"

definition rowValues :: "string list \<Rightarrow> Row \<Rightarrow> string list outcome" where
  "rowValues = rowValuesWith rowValue"

definition rowValuesReplace :: "string list \<Rightarrow> Row \<Rightarrow> string list outcome" where
  "rowValuesReplace = rowValuesWith rowValueReplace"

subsection \<open>Strings\<close>

definition backtick :: char where
  "backtick = CHR 0x60"

definition squote :: char where
  "squote = CHR 0x27"

definition dquote :: char where
  "dquote = CHR 0x22"

text \<open>
  \<open>strings.Replace(s, old, new, -1)\<close> for a one-byte \<open>old\<close>: every occurrence of
  the byte is replaced, left to right.
\<close>

fun strings_Replace :: "string \<Rightarrow> char \<Rightarrow> string \<Rightarrow> string" where
  "strings_Replace [] old new = []"
| "strings_Replace (c # s) old new =
     (if c = old then new @ strings_Replace s old new else c # strings_Replace s old new)"

text \<open>\<open>strings.Join(elems, sep)\<close>.\<close>

fun strings_Join :: "string list \<Rightarrow> string \<Rightarrow> string" where
  "strings_Join [] sep = []"
| "strings_Join [x] sep = x"
| "strings_Join (x # y # ys) sep = x @ sep @ strings_Join (y # ys) sep"

definition quoteIdentifier :: "string \<Rightarrow> string" where
  "quoteIdentifier name =
     [backtick] @ strings_Replace name backtick [backtick, backtick] @ [backtick]"

text \<open>
  Unquoting, as the specification words it: strip the outer backticks and collapse
  each doubled backtick.
\<close>

fun collapse_backticks :: "string \<Rightarrow> string" where
  "collapse_backticks (a # b # s) =
     (if a = backtick \<and> b = backtick then backtick # collapse_backticks s
      else a # collapse_backticks (b # s))"
| "collapse_backticks s = s"

definition unquoteIdentifier :: "string \<Rightarrow> string" where
  "unquoteIdentifier q = collapse_backticks (butlast (tl q))"

subsection \<open>The connection, the reader and the dumper\<close>

text \<open>
  Everything the dumper does to the outside is recorded, in order, as an event: the
  calls on \<open>*sql.DB\<close> and \<open>*sql.Tx\<close> with the error each returned, the
  records handed to the CSV writer of the pipe, and the two log lines that carry data.
  (The Info line of the default branch of the type switches and the \<open>fmt.Println\<close>
  of the query are not recorded.)
\<close>

datatype event =
    QueryRowScan string "string + bool"
  | ConnExec string "string option"
  | ConnBegin "string option"
  | TxExec string "string option"
  | TxCommit "string option"
  | TxRollback "string option"
  | ConnClose "string option"
  | CsvWrite "string list"
  | LogDebugInserted string int
  | LogErrorRollback string

text \<open>
  The struct \<open>myDumper\<close>. The connection is the trace of events so far, the errors
  the server will answer the coming calls with (one entry per call, \<open>None\<close> for
  success; success once the list is used up), and the server's global
  \<open>local_infile\<close>. \<open>reader\<close> is its \<open>GetColumns\<close>. \<open>setGlobalInline\<close>
  is the \<open>sync.Once\<close>: whether it has run. \<open>batch\<close> is an \<open>int64\<close>; the
  counters compared with it never pass \<open>max 1 batch\<close>, so nothing wraps and \<open>int\<close>
  is exact.
\<close>

record myDumper =
  conn_trace :: "event list"
  conn_faults :: "string option list"
  conn_local_infile :: bool
  reader_GetColumns :: "string \<Rightarrow> string + string list"
  setGlobalInline :: bool
  disableGlobalInline :: bool
  batch :: int

definition NewDumper ::
  "string option list \<Rightarrow> bool \<Rightarrow> (string \<Rightarrow> string + string list) \<Rightarrow> int \<Rightarrow> myDumper" where
  "NewDumper faults infile rdr b =
     \<lparr>conn_trace = [], conn_faults = faults, conn_local_infile = infile,
      reader_GetColumns = rdr, setGlobalInline = False, disableGlobalInline = False,
      batch = b\<rparr>"

definition emit :: "event \<Rightarrow> myDumper \<Rightarrow> myDumper" where
  "emit e d = d\<lparr>conn_trace := conn_trace d @ [e]\<rparr>"

definition answer :: "myDumper \<Rightarrow> string option \<times> myDumper" where
  "answer d =
     (case conn_faults d of
        [] \<Rightarrow> (None, d)
      | f # fs \<Rightarrow> (f, d\<lparr>conn_faults := fs\<rparr>))"

definition set_local_infile_1 :: string where
  "set_local_infile_1 = ''SET GLOBAL local_infile=1''"

definition set_local_infile_0 :: string where
  "set_local_infile_0 = ''SET GLOBAL local_infile=0''"

definition select_local_infile :: string where
  "select_local_infile = ''SELECT @@GLOBAL.local_infile''"

definition set_foreign_key_checks :: string where
  "set_foreign_key_checks = ''SET foreign_key_checks = 0;''"

text \<open>\<open>conn.QueryRow(q).Scan(&b)\<close> for the one boolean query of the source.\<close>

definition conn_QueryRow_Scan :: "string \<Rightarrow> myDumper \<Rightarrow> (string + bool) \<times> myDumper" where
  "conn_QueryRow_Scan q d =
     (case answer d of
        (Some e, d1) \<Rightarrow> (Inl e, emit (QueryRowScan q (Inl e)) d1)
      | (None, d1) \<Rightarrow>
          (Inr (conn_local_infile d1), emit (QueryRowScan q (Inr (conn_local_infile d1))) d1))"

text \<open>\<open>conn.Exec\<close>; the two statements that set the global take effect on success.\<close>

definition conn_Exec :: "string \<Rightarrow> myDumper \<Rightarrow> string option \<times> myDumper" where
  "conn_Exec stmt d =
     (case answer d of
        (Some e, d1) \<Rightarrow> (Some e, emit (ConnExec stmt (Some e)) d1)
      | (None, d1) \<Rightarrow>
          (None, emit (ConnExec stmt None)
             (if stmt = set_local_infile_1 then d1\<lparr>conn_local_infile := True\<rparr>
              else if stmt = set_local_infile_0 then d1\<lparr>conn_local_infile := False\<rparr>
              else d1)))"

definition conn_Begin :: "myDumper \<Rightarrow> string option \<times> myDumper" where
  "conn_Begin d = (case answer d of (r, d1) \<Rightarrow> (r, emit (ConnBegin r) d1))"

definition txn_Exec :: "string \<Rightarrow> myDumper \<Rightarrow> string option \<times> myDumper" where
  "txn_Exec stmt d = (case answer d of (r, d1) \<Rightarrow> (r, emit (TxExec stmt r) d1))"

definition txn_Commit :: "myDumper \<Rightarrow> string option \<times> myDumper" where
  "txn_Commit d = (case answer d of (r, d1) \<Rightarrow> (r, emit (TxCommit r) d1))"

definition txn_Rollback :: "myDumper \<Rightarrow> string option \<times> myDumper" where
  "txn_Rollback d = (case answer d of (r, d1) \<Rightarrow> (r, emit (TxRollback r) d1))"

definition conn_Close :: "myDumper \<Rightarrow> string option \<times> myDumper" where
  "conn_Close d = (case answer d of (r, d1) \<Rightarrow> (r, emit (ConnClose r) d1))"

subsection \<open>The streaming strategy\<close>

text \<open>
  The goroutine of \<open>insertIntoTable\<close> (lines 222 to 252). The channel is the list of
  rows still to come, closed after the last one: receiving from the empty list gives
  \<open>more = false\<close>. The error of \<open>w.Write\<close> is only logged, and the counter is
  incremented whatever it was, so the write is an event and nothing more.
\<close>

fun producer ::
  "string list \<Rightarrow> int \<Rightarrow> int \<Rightarrow> Row list \<Rightarrow> myDumper \<Rightarrow> int outcome \<times> myDumper \<times> Row list" where
  "producer columns b inserted [] d = (Returned inserted, d, [])"
| "producer columns b inserted (row # rowChan) d =
     (case rowValues columns row of
        Panicked m \<Rightarrow> (Panicked m, d, rowChan)
      | Returned vals \<Rightarrow>
          (if inserted + 1 \<ge> b then (Returned (inserted + 1), emit (CsvWrite vals) d, rowChan)
           else producer columns b (inserted + 1) rowChan (emit (CsvWrite vals) d)))"

definition load_data_query :: "string \<Rightarrow> string list \<Rightarrow> string" where
  "load_data_query tableName columnsQuoted =
     ''LOAD DATA CONCURRENT LOCAL INFILE '' @ [squote] @ ''Reader::'' @ tableName @ [squote]
     @ '' INTO TABLE '' @ quoteIdentifier tableName
     @ '' FIELDS TERMINATED BY '' @ [squote] @ '','' @ [squote]
     @ '' ENCLOSED BY '' @ [squote, dquote, squote]
     @ '' ESCAPED BY '' @ [squote, dquote, squote]
     @ '' ('' @ strings_Join columnsQuoted '','' @ '')''"

text \<open>
  \<open>insertIntoTable\<close>. The goroutine and the two \<open>txn.Exec\<close> calls run
  concurrently in the source; the LOAD DATA statement returns only after it has read the
  pipe to its end, which is after the goroutine has left its loop. The model runs the
  goroutine first and the two statements after it. On the paths where both statements
  succeed this is what the source does: the count returned, the records written and the
  rows left on the channel are those of the finished goroutine. On the paths where a
  statement fails the source returns 0 and the error while the goroutine may still be
  running, so how many rows it has taken by then is a matter of scheduling; the model
  fixes the schedule in which it has finished, and no property below reads the channel
  or the records of such a path. A panic of the goroutine is a panic of the program.
\<close>

definition insertIntoTable ::
  "myDumper \<Rightarrow> string \<Rightarrow> Row list \<Rightarrow> int \<Rightarrow> (int \<times> string option) outcome \<times> myDumper \<times> Row list" where
  "insertIntoTable d tableName rowChan b =
     (case reader_GetColumns d tableName of
        Inl e \<Rightarrow> (Returned (0, Some (''failed to get columns: '' @ e)), d, rowChan)
      | Inr columns \<Rightarrow>
          (case producer columns b 0 rowChan d of
             (Panicked m, d1, ch) \<Rightarrow> (Panicked m, d1, ch)
           | (Returned inserted, d1, ch) \<Rightarrow>
               (case txn_Exec set_foreign_key_checks d1 of
                  (Some e, d2) \<Rightarrow>
                    (Returned (0, Some (''failed to disable foreign key checks: '' @ e)), d2, ch)
                | (None, d2) \<Rightarrow>
                    (case txn_Exec (load_data_query tableName (map quoteIdentifier columns)) d2 of
                       (Some e, d3) \<Rightarrow>
                         (Returned (0, Some (''failed to execute query: '' @ e)), d3, ch)
                     | (None, d3) \<Rightarrow> (Returned (inserted, None), d3, ch)))))"

subsection \<open>The buffered replace strategy\<close>

text \<open>The loop of \<open>insertIntoTableReplace\<close> (lines 290 to 320) over its buffer.\<close>

fun replace_rows ::
  "string list \<Rightarrow> int \<Rightarrow> string \<Rightarrow> int \<Rightarrow> Row list \<Rightarrow> (string \<times> int) outcome \<times> Row list" where
  "replace_rows columns b buf inserted [] = (Returned (buf, inserted), [])"
| "replace_rows columns b buf inserted (row # rowChan) =
     (case rowValuesReplace columns row of
        Panicked m \<Rightarrow> (Panicked m, rowChan)
      | Returned vals \<Rightarrow>
          (let buf1 = (if inserted \<noteq> 0 then buf @ '','' else buf);
               buf2 = buf1 @ ''('' @ strings_Join vals '','' @ '')''
           in if inserted + 1 \<ge> b then (Returned (buf2, inserted + 1), rowChan)
              else replace_rows columns b buf2 (inserted + 1) rowChan))"

definition insertIntoTableReplace ::
  "myDumper \<Rightarrow> string \<Rightarrow> Row list \<Rightarrow> int \<Rightarrow> (int \<times> string option) outcome \<times> myDumper \<times> Row list" where
  "insertIntoTableReplace d tableName rowChan b =
     (case reader_GetColumns d tableName of
        Inl e \<Rightarrow> (Returned (0, Some (''failed to get columns: '' @ e)), d, rowChan)
      | Inr columns \<Rightarrow>
          (case replace_rows columns b (''replace into '' @ tableName @ '' values '') 0 rowChan of
             (Panicked m, ch) \<Rightarrow> (Panicked m, d, ch)
           | (Returned (buf, inserted), ch) \<Rightarrow>
               (if inserted = 0 then (Returned (0, None), d, ch)
                else
                  (case txn_Exec set_foreign_key_checks d of
                     (Some e, d2) \<Rightarrow>
                       (Returned (0, Some (''failed to disable foreign key checks: '' @ e)), d2, ch)
                   | (None, d2) \<Rightarrow>
                       (case txn_Exec buf d2 of
                          (Some e, d3) \<Rightarrow>
                            (Returned (0, Some (''failed to execute query: '' @ e)), d3, ch)
                        | (None, d3) \<Rightarrow> (Returned (inserted, None), d3, ch))))))"

subsection \<open>One batch in one transaction\<close>

type_synonym strategy =
  "myDumper \<Rightarrow> string \<Rightarrow> Row list \<Rightarrow> int \<Rightarrow> (int \<times> string option) outcome \<times> myDumper \<times> Row list"

text \<open>
  \<open>trunkInsert\<close>, with the strategy it calls as a parameter. The source calls
  \<open>insertIntoTable\<close>; \<open>insertIntoTableReplace\<close> has the same signature and is
  the strategy the source keeps beside it.
\<close>

definition trunkInsertWith ::
  "strategy \<Rightarrow> myDumper \<Rightarrow> string \<Rightarrow> Row list \<Rightarrow> int \<Rightarrow> (int \<times> string option) outcome \<times> myDumper \<times> Row list" where
  "trunkInsertWith ins d tableName rowChan b =
     (case conn_Begin d of
        (Some e, d1) \<Rightarrow> (Returned (0, Some (''failed to open transaction: '' @ e)), d1, rowChan)
      | (None, d1) \<Rightarrow>
          (case ins d1 tableName rowChan b of
             (Panicked m, d2, ch) \<Rightarrow> (Panicked m, d2, ch)
           | (Returned (insertedRows, Some e), d2, ch) \<Rightarrow>
               (case txn_Rollback d2 of
                  (Some re, d3) \<Rightarrow>
                    (Returned (0, Some (''failed to insert rows: '' @ e)), emit (LogErrorRollback re) d3, ch)
                | (None, d3) \<Rightarrow>
                    (Returned (0, Some (''failed to insert rows: '' @ e)), d3, ch))
           | (Returned (insertedRows, None), d2, ch) \<Rightarrow>
               (case txn_Commit (emit (LogDebugInserted tableName insertedRows) d2) of
                  (Some e, d3) \<Rightarrow>
                    (Returned (0, Some (''failed to commit transaction: '' @ e)), d3, ch)
                | (None, d3) \<Rightarrow> (Returned (insertedRows, None), d3, ch))))"

definition trunkInsert ::
  "myDumper \<Rightarrow> string \<Rightarrow> Row list \<Rightarrow> int \<Rightarrow> (int \<times> string option) outcome \<times> myDumper \<times> Row list" where
  "trunkInsert = trunkInsertWith insertIntoTable"

subsection \<open>DumpTable\<close>

text \<open>
  The function passed to \<open>setGlobalInline.Do\<close> (lines 109 to 124), with the error it
  leaves in \<open>err\<close>. \<open>sync.Once\<close> counts the call as done however the function
  returned.
\<close>

definition setGlobalInline_Do :: "myDumper \<Rightarrow> string option \<times> myDumper" where
  "setGlobalInline_Do d =
     (if setGlobalInline d then (None, d)
      else
        (case conn_QueryRow_Scan select_local_infile (d\<lparr>setGlobalInline := True\<rparr>) of
           (Inl e, d1) \<Rightarrow> (Some e, d1)
         | (Inr allowLocalInline, d1) \<Rightarrow>
             (if allowLocalInline then (None, d1)
              else
                (case conn_Exec set_local_infile_1 d1 of
                   (Some e, d2) \<Rightarrow> (Some e, d2)
                 | (None, d2) \<Rightarrow> (None, d2\<lparr>disableGlobalInline := True\<rparr>)))))"

text \<open>
  The loop \<open>for inserted == batch\<close> (lines 131 to 136). An error of the batch goes to
  \<open>log.Panic\<close>. The loop need not end, so its result is an option: \<open>None\<close> is a
  loop that runs for ever.
\<close>

partial_function (option) tableLoop ::
  "strategy \<Rightarrow> myDumper \<Rightarrow> string \<Rightarrow> Row list \<Rightarrow> int \<Rightarrow> int \<Rightarrow> (string option outcome \<times> myDumper \<times> Row list) option" where
  "tableLoop ins d tableName rowChan b inserted =
     (if inserted = b then
        (case trunkInsertWith ins d tableName rowChan b of
           (Panicked m, d1, ch) \<Rightarrow> Some (Panicked m, d1, ch)
         | (Returned (n, Some e), d1, ch) \<Rightarrow> Some (Panicked e, d1, ch)
         | (Returned (n, None), d1, ch) \<Rightarrow> tableLoop ins d1 tableName ch b n)
      else Some (Returned None, d, rowChan))"

definition DumpTableWith ::
  "strategy \<Rightarrow> myDumper \<Rightarrow> string \<Rightarrow> Row list \<Rightarrow> (string option outcome \<times> myDumper \<times> Row list) option" where
  "DumpTableWith ins d tableName rowChan =
     (case setGlobalInline_Do d of
        (Some e, d1) \<Rightarrow> Some (Returned (Some e), d1, rowChan)
      | (None, d1) \<Rightarrow> tableLoop ins d1 tableName rowChan (batch d1) (batch d1))"

definition DumpTable ::
  "myDumper \<Rightarrow> string \<Rightarrow> Row list \<Rightarrow> (string option outcome \<times> myDumper \<times> Row list) option" where
  "DumpTable = DumpTableWith insertIntoTable"

subsection \<open>Close\<close>

definition Close :: "myDumper \<Rightarrow> string option \<times> myDumper" where
  "Close d =
     (case (if disableGlobalInline d then conn_Exec set_local_infile_0 d else (None, d)) of
        (errGlobalInline, d1) \<Rightarrow>
          (case conn_Close d1 of
             (Some err, d2) \<Rightarrow>
               (case errGlobalInline of
                  Some ge \<Rightarrow>
                    (Some (''failed to close mysql connection and '' @ [backtick]
                           @ ''SET GLOBAL local_infile=0'' @ [backtick] @ '': '' @ ge), d2)
                | None \<Rightarrow> (Some (''failed to close mysql connection: '' @ err), d2))
           | (None, d2) \<Rightarrow>
               (case errGlobalInline of
                  Some ge \<Rightarrow>
                    (Some (''failed '' @ [backtick] @ ''SET GLOBAL local_infile=0'' @ [backtick]
                           @ '' please do this manually! : '' @ ge), d2)
                | None \<Rightarrow> (None, d2))))"

section \<open>Observations on runs\<close>

text \<open>
  The notions the properties are stated with. None of them is code of the dumper.
\<close>

subsection \<open>Rows the type switches handle\<close>

text \<open>A field is handled when its dynamic type is nil, string or []uint8.\<close>

fun handled :: "field \<Rightarrow> bool" where
  "handled (FOther ty) = False"
| "handled v = True"

definition rows_handled :: "string list \<Rightarrow> Row list \<Rightarrow> bool" where
  "rows_handled columns rows = list_all (\<lambda>row. list_all (\<lambda>col. handled (index_row row col)) columns) rows"

subsection \<open>Reading the trace\<close>

text \<open>
  \<open>transactions\<close> counts the calls of \<open>conn.Begin\<close>: \<open>trunkInsert\<close> makes
  exactly one per invocation and nothing else makes any. \<open>batch_counts\<close> lists the
  row counts of the Debug line of \<open>trunkInsert\<close>, which is the count the invocation
  returns when its commit succeeds.
\<close>

fun begun :: "event \<Rightarrow> nat" where
  "begun (ConnBegin r) = 1"
| "begun e = 0"

definition transactions :: "event list \<Rightarrow> nat" where
  "transactions tr = sum_list (map begun tr)"

fun inserted_of :: "event \<Rightarrow> int list" where
  "inserted_of (LogDebugInserted t n) = [n]"
| "inserted_of e = []"

definition batch_counts :: "event list \<Rightarrow> int list" where
  "batch_counts tr = concat (map inserted_of tr)"

text \<open>
  The number of rows one batch takes from a channel that has them: the loops count
  first and compare afterwards, so one row is taken even when the batch size is zero or
  negative.
\<close>

definition quota :: "int \<Rightarrow> nat" where
  "quota b = max 1 (nat b)"

text \<open>One parenthesised group of the replace statement.\<close>

definition row_group :: "string list \<Rightarrow> string" where
  "row_group vals = ''('' @ strings_Join vals '','' @ '')''"

text \<open>
  \<open>csv_records\<close> lists the records handed to the CSV writer of the pipe, in order.
  \<open>statements\<close> lists the texts executed in transactions, in order, leaving out the
  foreign key preamble. \<open>values_of\<close> reads the values of a row that encoded.
\<close>

definition values_of :: "string list outcome \<Rightarrow> string list" where
  "values_of r = (case r of Returned vals \<Rightarrow> vals | Panicked m \<Rightarrow> [])"

fun csv_of :: "event \<Rightarrow> string list list" where
  "csv_of (CsvWrite vals) = [vals]"
| "csv_of e = []"

definition csv_records :: "event list \<Rightarrow> string list list" where
  "csv_records tr = concat (map csv_of tr)"

fun stmt_of :: "event \<Rightarrow> string list" where
  "stmt_of (TxExec s r) = (if s = set_foreign_key_checks then [] else [s])"
| "stmt_of e = []"

definition statements :: "event list \<Rightarrow> string list" where
  "statements tr = concat (map stmt_of tr)"

text \<open>
  The text of the replace statement for the encoded rows of one batch, and what one
  batch of the replace strategy executes: nothing for an empty batch.
\<close>

definition replace_text :: "string \<Rightarrow> string list list \<Rightarrow> string" where
  "replace_text t vss = ''replace into '' @ t @ '' values '' @ strings_Join (map row_group vss) '',''"

definition replace_written :: "string \<Rightarrow> string list \<Rightarrow> Row list \<Rightarrow> string list" where
  "replace_written t columns c =
     (if c = [] then [] else [replace_text t (map (\<lambda>row. values_of (rowValuesReplace columns row)) c)])"

subsection \<open>The events of the local_infile guard\<close>

text \<open>
  The events on the connection itself (outside a transaction), and among them the
  read of the global, the statement that enables it and the statement that disables it.
\<close>

fun is_global :: "event \<Rightarrow> bool" where
  "is_global (QueryRowScan q r) = True"
| "is_global (ConnExec s r) = True"
| "is_global e = False"

definition global_events :: "event list \<Rightarrow> event list" where
  "global_events tr = filter is_global tr"

fun infile_read :: "event \<Rightarrow> bool" where
  "infile_read (QueryRowScan q r) = (q = select_local_infile)"
| "infile_read e = False"

fun infile_enable :: "event \<Rightarrow> bool" where
  "infile_enable (ConnExec s r) = (s = set_local_infile_1)"
| "infile_enable e = False"

fun infile_disable :: "event \<Rightarrow> bool" where
  "infile_disable (ConnExec s r) = (s = set_local_infile_0)"
| "infile_disable e = False"

text \<open>
  \<open>same_guard\<close>: a step that leaves the guard alone. \<open>guard_shape\<close>: the five
  states the guard can be in, with the connection events that lead to each.
\<close>

definition same_guard :: "myDumper \<Rightarrow> myDumper \<Rightarrow> bool" where
  "same_guard d d' =
     (global_events (conn_trace d') = global_events (conn_trace d)
      \<and> setGlobalInline d' = setGlobalInline d
      \<and> disableGlobalInline d' = disableGlobalInline d)"

definition guard_shape :: "bool \<Rightarrow> bool \<Rightarrow> event list \<Rightarrow> bool" where
  "guard_shape once dis gs =
     (if once then
        (\<exists>e. gs = [QueryRowScan select_local_infile (Inl e)] \<and> \<not> dis)
        \<or> (gs = [QueryRowScan select_local_infile (Inr True)] \<and> \<not> dis)
        \<or> (\<exists>e. gs = [QueryRowScan select_local_infile (Inr False), ConnExec set_local_infile_1 (Some e)]
              \<and> \<not> dis)
        \<or> (gs = [QueryRowScan select_local_infile (Inr False), ConnExec set_local_infile_1 None] \<and> dis)
      else gs = [] \<and> \<not> dis)"

definition guard_inv :: "myDumper \<Rightarrow> bool" where
  "guard_inv d =
     guard_shape (setGlobalInline d) (disableGlobalInline d) (global_events (conn_trace d))"

definition guard_neutral :: "strategy \<Rightarrow> bool" where
  "guard_neutral ins = (\<forall>d t rowChan b r d' ch. ins d t rowChan b = (r, d', ch) \<longrightarrow> same_guard d d')"

text \<open>
  The states of one dumper session: a new dumper, any number of \<open>DumpTable\<close> calls
  that came back (returned or panicked), and between them a server that may change its
  answers and its global at will.
\<close>

inductive session :: "myDumper \<Rightarrow> bool" where
  new: "session (NewDumper faults infile rdr b)"
| dump: "session d \<Longrightarrow> DumpTable d tableName rowChan = Some (res, d', ch') \<Longrightarrow> session d'"
| server: "session d \<Longrightarrow> session (d\<lparr>conn_faults := faults, conn_local_infile := infile\<rparr>)"

subsection \<open>The two errors of Close\<close>

text \<open>
  What the two calls of \<open>Close\<close> answer: the restore of the global (made only when
  this session enabled it) and the close of the connection.
\<close>

definition restore_error :: "myDumper \<Rightarrow> string option" where
  "restore_error d = (if disableGlobalInline d then fst (conn_Exec set_local_infile_0 d) else None)"

definition close_error :: "myDumper \<Rightarrow> string option" where
  "close_error d =
     fst (conn_Close (if disableGlobalInline d then snd (conn_Exec set_local_infile_0 d) else d))"

subsection \<open>Example inputs\<close>

definition demo_reader :: "string \<Rightarrow> string + string list" where
  "demo_reader t = Inr [''id'', ''name'']"

definition demo_row :: "string \<Rightarrow> Row" where
  "demo_row i = [''id'' \<mapsto> FString i, ''name'' \<mapsto> FBytes ''a,b'']"

definition demo_rows :: "Row list" where
  "demo_rows = [demo_row ''1'', demo_row ''2'', demo_row ''3'', demo_row ''4'', demo_row ''5'']"

definition demo_dumper :: myDumper where
  "demo_dumper = NewDumper [] True demo_reader 2"

definition refused_dumper :: myDumper where
  "refused_dumper = NewDumper [None, Some ''connection refused''] True demo_reader 2"

definition fresh_dumper :: myDumper where
  "fresh_dumper = NewDumper [] False demo_reader 2"

definition closing_dumper :: myDumper where
  "closing_dumper =
     \<lparr>conn_trace = [QueryRowScan select_local_infile (Inr False), ConnExec set_local_infile_1 None],
      conn_faults = [Some ''server has gone away'', Some ''broken pipe''], conn_local_infile = True,
      reader_GetColumns = demo_reader, setGlobalInline = True, disableGlobalInline = True,
      batch = 2\<rparr>"

definition quoted_rows :: "Row list" where
  "quoted_rows =
     [[''id'' \<mapsto> FString ''1'', ''name'' \<mapsto> FString (''O'' @ [squote] @ ''Neil, Jr'')],
      [''id'' \<mapsto> FBytes ''2'']]"

definition zero_dumper :: myDumper where
  "zero_dumper = NewDumper [] True demo_reader 0"

definition negative_dumper :: myDumper where
  "negative_dumper = NewDumper [] True demo_reader (- 2)"

definition unhandled_rows :: "Row list" where
  "unhandled_rows = [demo_row ''1'', [''id'' \<mapsto> FOther ''int64'']]"

definition failing_reader :: "string \<Rightarrow> string + string list" where
  "failing_reader t = Inl ''no such table''"

definition unreadable_dumper :: myDumper where
  "unreadable_dumper = NewDumper [] True failing_reader 2"

definition closing_dumper_eof :: myDumper where
  "closing_dumper_eof = closing_dumper\<lparr>conn_faults := [Some ''server has gone away'', Some ''EOF'']\<rparr>"

definition partial_row :: Row where
  "partial_row = [''id'' \<mapsto> FString ''7'']"

section \<open>Properties\<close>

subsection \<open>Field encoding\<close>

text \<open>
  C5: the field encoders of the streaming strategy and of the buffered replace
  strategy are the same function; both send nil to the text NULL, a string to itself
  and a byte slice to its bytes read as text.
\<close>

theorem rowValue_strategies_agree:
  "rowValue v = rowValueReplace v
   \<and> rowValue FNil = Returned ''NULL'' \<and> rowValueReplace FNil = Returned ''NULL''
   \<and> rowValue (FString s) = Returned s \<and> rowValueReplace (FString s) = Returned s
   \<and> rowValue (FBytes b) = Returned b \<and> rowValueReplace (FBytes b) = Returned b"
  by (cases v) (simp_all add: null_def)

lemma rowValuesWith_missing:
  "row col = None \<Longrightarrow> rowValuesWith enc columns (row(col \<mapsto> FNil)) = rowValuesWith enc columns row"
  by (induction columns) (auto simp: index_row_def split: outcome.splits)

text \<open>
  C10: in both strategies a row without an entry for a listed column encodes that
  field as the text NULL, and the whole row encodes as the same row with the column set
  to nil, so the other fields are not affected.
\<close>

theorem missing_column_is_null:
  "row col = None \<Longrightarrow>
     rowValue (index_row row col) = Returned ''NULL''
   \<and> rowValueReplace (index_row row col) = Returned ''NULL''
   \<and> rowValues columns row = rowValues columns (row(col \<mapsto> FNil))
   \<and> rowValuesReplace columns row = rowValuesReplace columns (row(col \<mapsto> FNil))"
  by (simp add: rowValues_def rowValuesReplace_def rowValuesWith_missing index_row_def null_def)

text \<open>The row with only the column id, encoded for the columns id and name.\<close>

theorem missing_column_is_null_witness:
  "partial_row ''name'' = None
   \<and> rowValues [''id'', ''name''] partial_row = Returned [''7'', ''NULL'']
   \<and> rowValuesReplace [''id'', ''name''] partial_row = Returned [''7'', ''NULL'']
   \<and> rowValues [''id'', ''name''] (partial_row(''name'' \<mapsto> FNil)) = Returned [''7'', ''NULL'']"
  using missing_column_is_null [of partial_row "''name''" "[''id'', ''name'']"]
  by (simp add: partial_row_def rowValues_def rowValuesReplace_def index_row_def null_def)

subsection \<open>Identifier quoting\<close>

lemma collapse_backticks_other:
  "c \<noteq> backtick \<Longrightarrow> collapse_backticks (c # s) = c # collapse_backticks s"
  by (cases s) simp_all

lemma collapse_backticks_Replace:
  "collapse_backticks (strings_Replace name backtick [backtick, backtick]) = name"
  by (induction name) (simp_all add: collapse_backticks_other)

lemma strings_Replace_concat:
  "strings_Replace s old new = concat (map (\<lambda>c. if c = old then new else [c]) s)"
  by (induction s) simp_all

text \<open>
  C6: quoteIdentifier puts the name between two backticks with every backtick of the
  name doubled; stripping the outer backticks and collapsing the doubled ones gives the
  name back, for every name; so two names with the same quoting are the same name.
\<close>

theorem quoteIdentifier_roundtrip:
  "quoteIdentifier name =
     backtick # concat (map (\<lambda>c. if c = backtick then [backtick, backtick] else [c]) name) @ [backtick]
   \<and> unquoteIdentifier (quoteIdentifier name) = name
   \<and> ((quoteIdentifier a = quoteIdentifier b) = (a = b))"
proof -
  have rt: "unquoteIdentifier (quoteIdentifier n) = n" for n
    by (simp add: unquoteIdentifier_def quoteIdentifier_def collapse_backticks_Replace)
  have "a = b" if "quoteIdentifier a = quoteIdentifier b"
  proof -
    have "unquoteIdentifier (quoteIdentifier a) = unquoteIdentifier (quoteIdentifier b)"
      using that by (rule arg_cong)
    then show ?thesis
      by (simp only: rt)
  qed
  then have inj: "(quoteIdentifier a = quoteIdentifier b) = (a = b)"
    by blast
  have shape: "quoteIdentifier name =
     backtick # concat (map (\<lambda>c. if c = backtick then [backtick, backtick] else [c]) name) @ [backtick]"
    by (simp add: quoteIdentifier_def strings_Replace_concat)
  from shape rt [of name] inj show ?thesis
    by blast
qed

subsection \<open>Runs without errors\<close>

lemma answer_quiet: "conn_faults d = [] \<Longrightarrow> answer d = (None, d)"
  by (simp add: answer_def)

lemma transactions_append [simp]: "transactions (xs @ ys) = transactions xs + transactions ys"
  by (simp add: transactions_def)

lemma batch_counts_append [simp]: "batch_counts (xs @ ys) = batch_counts xs @ batch_counts ys"
  by (simp add: batch_counts_def)

lemma transactions_simps [simp]:
  "transactions [] = 0" "transactions (e # tr) = begun e + transactions tr"
  by (simp_all add: transactions_def)

lemma batch_counts_simps [simp]:
  "batch_counts [] = []" "batch_counts (e # tr) = inserted_of e @ batch_counts tr"
  by (simp_all add: batch_counts_def)

lemma rowValuesWith_handled:
  assumes "\<And>v. handled v \<Longrightarrow> \<exists>s. enc v = Returned s"
  shows "list_all (\<lambda>col. handled (index_row row col)) columns \<Longrightarrow> \<exists>vals. rowValuesWith enc columns row = Returned vals"
proof (induction columns)
  case Nil
  then show ?case by simp
next
  case (Cons col columns)
  then obtain vals where "rowValuesWith enc columns row = Returned vals" by auto
  moreover from Cons.prems assms obtain s where "enc (index_row row col) = Returned s" by auto
  ultimately show ?case by simp
qed

lemma rowValue_handled: "handled v \<Longrightarrow> \<exists>s. rowValue v = Returned s"
  by (cases v) simp_all

lemma rowValueReplace_handled: "handled v \<Longrightarrow> \<exists>s. rowValueReplace v = Returned s"
  by (cases v) simp_all

lemma rowValues_handled:
  "list_all (\<lambda>col. handled (index_row row col)) columns \<Longrightarrow> \<exists>vals. rowValues columns row = Returned vals"
  unfolding rowValues_def by (rule rowValuesWith_handled) (rule rowValue_handled)

lemma rowValuesReplace_handled:
  "list_all (\<lambda>col. handled (index_row row col)) columns \<Longrightarrow> \<exists>vals. rowValuesReplace columns row = Returned vals"
  unfolding rowValuesReplace_def by (rule rowValuesWith_handled) (rule rowValueReplace_handled)

text \<open>
  What the goroutine returns, leaves on the channel and adds to the trace when every
  field is handled.
\<close>

lemma producer_run:
  "rows_handled columns rowChan \<Longrightarrow>
   \<exists>es. producer columns b i rowChan d =
          (Returned (i + int (length (take (quota (b - i)) rowChan))),
           d\<lparr>conn_trace := conn_trace d @ es\<rparr>, drop (quota (b - i)) rowChan)
        \<and> transactions es = 0 \<and> batch_counts es = []"
proof (induction rowChan arbitrary: i d)
  case Nil
  show ?case by (intro exI [of _ "[]"]) simp
next
  case (Cons row rowChan)
  from Cons.prems obtain vals where vals: "rowValues columns row = Returned vals"
    using rowValues_handled by (auto simp: rows_handled_def)
  from Cons.prems have rest: "rows_handled columns rowChan"
    by (simp add: rows_handled_def)
  show ?case
  proof (cases "i + 1 \<ge> b")
    case True
    then have q: "quota (b - i) = 1" by (simp add: quota_def)
    show ?thesis
      using True vals by (intro exI [of _ "[CsvWrite vals]"]) (simp add: q emit_def)
  next
    case False
    then have q: "quota (b - i) = Suc (quota (b - (i + 1)))"
      by (simp add: quota_def)
    from Cons.IH [OF rest, of "i + 1" "emit (CsvWrite vals) d"]
    obtain es where es: "producer columns b (i + 1) rowChan (emit (CsvWrite vals) d) =
          (Returned (i + 1 + int (length (take (quota (b - (i + 1))) rowChan))),
           (emit (CsvWrite vals) d)\<lparr>conn_trace := conn_trace (emit (CsvWrite vals) d) @ es\<rparr>,
           drop (quota (b - (i + 1))) rowChan)"
      and z: "transactions es = 0" "batch_counts es = []"
      by blast
    show ?thesis
      using False vals es z
      by (intro exI [of _ "CsvWrite vals # es"]) (simp add: q emit_def)
  qed
qed


lemma insertIntoTable_run:
  assumes "conn_faults d = []" "reader_GetColumns d t = Inr columns" "rows_handled columns rowChan"
  shows "\<exists>es. insertIntoTable d t rowChan b =
          (Returned (int (length (take (quota b) rowChan)), None),
           d\<lparr>conn_trace := conn_trace d @ es\<rparr>, drop (quota b) rowChan)
        \<and> transactions es = 0 \<and> batch_counts es = []"
proof -
  from producer_run [OF assms(3), of b 0 d]
  obtain es where es: "producer columns b 0 rowChan d =
          (Returned (int (length (take (quota b) rowChan))),
           d\<lparr>conn_trace := conn_trace d @ es\<rparr>, drop (quota b) rowChan)"
    and z: "transactions es = 0" "batch_counts es = []"
    by auto
  show ?thesis
    using assms(1,2) es z
    by (intro exI [of _ "es @ [TxExec set_foreign_key_checks None,
          TxExec (load_data_query t (map quoteIdentifier columns)) None]"])
       (simp add: insertIntoTable_def txn_Exec_def answer_def emit_def)
qed

lemma strings_Join_Cons:
  "strings_Join (x # xs) sep = x @ concat (map (\<lambda>y. sep @ y) xs)"
  by (induction xs arbitrary: x) simp_all

lemma replace_rows_later:
  "1 \<le> i \<Longrightarrow> map (rowValuesReplace columns) (take (quota (b - i)) rowChan) = map Returned vss \<Longrightarrow>
   replace_rows columns b buf i rowChan =
     (Returned (buf @ concat (map (\<lambda>vals. '','' @ row_group vals) vss), i + int (length vss)),
      drop (quota (b - i)) rowChan)"
proof (induction rowChan arbitrary: i buf vss)
  case Nil
  then show ?case by simp
next
  case (Cons row rowChan)
  show ?case
  proof (cases "i + 1 \<ge> b")
    case True
    then have q: "quota (b - i) = 1" by (simp add: quota_def)
    with Cons.prems obtain vals where "vss = [vals]" "rowValuesReplace columns row = Returned vals"
      by (cases vss) auto
    then show ?thesis
      using True Cons.prems(1) by (simp add: q row_group_def)
  next
    case False
    then have q: "quota (b - i) = Suc (quota (b - (i + 1)))"
      by (simp add: quota_def)
    with Cons.prems obtain vals vss' where v: "vss = vals # vss'" "rowValuesReplace columns row = Returned vals"
      "map (rowValuesReplace columns) (take (quota (b - (i + 1))) rowChan) = map Returned vss'"
      by (cases vss) auto
    from Cons.prems(1) have "1 \<le> i + 1" by simp
    from Cons.IH [OF this v(3)] show ?thesis
      using False v(1,2) Cons.prems(1) by (simp add: q row_group_def)
  qed
qed

lemma replace_rows_first:
  "map (rowValuesReplace columns) (take (quota b) rowChan) = map Returned vss \<Longrightarrow>
   replace_rows columns b buf 0 rowChan =
     (Returned (buf @ strings_Join (map row_group vss) '','', int (length vss)), drop (quota b) rowChan)"
proof (cases rowChan)
  case Nil
  assume "map (rowValuesReplace columns) (take (quota b) rowChan) = map Returned vss"
  with Nil show ?thesis by simp
next
  case (Cons row rest)
  assume a: "map (rowValuesReplace columns) (take (quota b) rowChan) = map Returned vss"
  show ?thesis
  proof (cases "1 \<ge> b")
    case True
    then have q: "quota b = 1" by (simp add: quota_def)
    with a Cons obtain vals where "vss = [vals]" "rowValuesReplace columns row = Returned vals"
      by (cases vss) auto
    then show ?thesis
      using True Cons by (simp add: q row_group_def)
  next
    case False
    then have q: "quota b = Suc (quota (b - 1))"
      by (simp add: quota_def)
    with a Cons obtain vals vss' where v: "vss = vals # vss'" "rowValuesReplace columns row = Returned vals"
      "map (rowValuesReplace columns) (take (quota (b - 1)) rest) = map Returned vss'"
      by (cases vss) auto
    from replace_rows_later [OF _ v(3), of "buf @ row_group vals"] show ?thesis
      using False v(1,2) Cons by (simp add: q row_group_def strings_Join_Cons comp_def)
  qed
qed

lemma rows_handled_Returned:
  "rows_handled columns rows \<Longrightarrow> \<exists>vss. map (rowValuesReplace columns) rows = map Returned vss"
proof (induction rows)
  case Nil
  then show ?case by simp
next
  case (Cons row rows)
  then obtain vss where "map (rowValuesReplace columns) rows = map Returned vss"
    by (auto simp: rows_handled_def)
  moreover from Cons.prems obtain vals where "rowValuesReplace columns row = Returned vals"
    using rowValuesReplace_handled by (auto simp: rows_handled_def)
  ultimately show ?case
    by (intro exI [of _ "vals # vss"]) simp
qed

lemma rows_handled_take: "rows_handled columns rows \<Longrightarrow> rows_handled columns (take n rows)"
  by (auto simp: rows_handled_def list_all_iff dest: in_set_takeD)

lemma rows_handled_drop: "rows_handled columns rows \<Longrightarrow> rows_handled columns (drop n rows)"
  by (auto simp: rows_handled_def list_all_iff dest: in_set_dropD)

lemma insertIntoTableReplace_run:
  assumes "conn_faults d = []" "reader_GetColumns d t = Inr columns" "rows_handled columns rowChan"
  shows "\<exists>es. insertIntoTableReplace d t rowChan b =
          (Returned (int (length (take (quota b) rowChan)), None),
           d\<lparr>conn_trace := conn_trace d @ es\<rparr>, drop (quota b) rowChan)
        \<and> transactions es = 0 \<and> batch_counts es = []"
proof -
  from rows_handled_Returned [OF rows_handled_take [OF assms(3)]]
  obtain vss where vss: "map (rowValuesReplace columns) (take (quota b) rowChan) = map Returned vss"
    by blast
  then have len: "length vss = length (take (quota b) rowChan)"
    by (metis length_map)
  note run = replace_rows_first [OF vss, of "''replace into '' @ t @ '' values ''"]
  show ?thesis
  proof (cases "rowChan = []")
    case True
    with run len assms(2) show ?thesis
      by (intro exI [of _ "[]"]) (simp add: insertIntoTableReplace_def)
  next
    case False
    then have "length (take (quota b) rowChan) \<noteq> 0"
      by (simp add: quota_def)
    with run len assms(1,2) show ?thesis
      by (intro exI [of _ "[TxExec set_foreign_key_checks None,
            TxExec (''replace into '' @ t @ '' values '' @ strings_Join (map row_group vss) '','') None]"])
         (auto simp: insertIntoTableReplace_def txn_Exec_def answer_def emit_def min_def)
  qed
qed

lemma trunkInsertWith_run:
  assumes f: "conn_faults d = []"
    and ins: "\<exists>es. ins (emit (ConnBegin None) d) t rowChan b =
            (Returned (n, None), (emit (ConnBegin None) d)\<lparr>conn_trace := conn_trace (emit (ConnBegin None) d) @ es\<rparr>, ch)
          \<and> transactions es = 0 \<and> batch_counts es = []"
  shows "\<exists>es. trunkInsertWith ins d t rowChan b =
          (Returned (n, None), d\<lparr>conn_trace := conn_trace d @ es\<rparr>, ch)
        \<and> transactions es = 1 \<and> batch_counts es = [n]"
proof -
  from ins obtain es where es: "ins (emit (ConnBegin None) d) t rowChan b =
            (Returned (n, None), (emit (ConnBegin None) d)\<lparr>conn_trace := conn_trace (emit (ConnBegin None) d) @ es\<rparr>, ch)"
    and z: "transactions es = 0" "batch_counts es = []"
    by blast
  show ?thesis
    using f es z
    by (intro exI [of _ "ConnBegin None # es @ [LogDebugInserted t n, TxCommit None]"])
       (simp add: trunkInsertWith_def conn_Begin_def txn_Commit_def answer_def emit_def)
qed

lemma tableLoop_run:
  assumes b: "1 \<le> b"
    and step: "\<And>d ch. conn_faults d = [] \<Longrightarrow> reader_GetColumns d t = Inr columns \<Longrightarrow>
        rows_handled columns ch \<Longrightarrow>
        \<exists>es. trunkInsertWith ins d t ch b =
               (Returned (int (length (take (nat b) ch)), None),
                d\<lparr>conn_trace := conn_trace d @ es\<rparr>, drop (nat b) ch)
             \<and> transactions es = 1 \<and> batch_counts es = [int (length (take (nat b) ch))]"
  shows "conn_faults d = [] \<Longrightarrow> reader_GetColumns d t = Inr columns \<Longrightarrow> rows_handled columns ch \<Longrightarrow>
     \<exists>es. tableLoop ins d t ch b b =
            Some (Returned None, d\<lparr>conn_trace := conn_trace d @ es\<rparr>, [])
          \<and> transactions es = length ch div nat b + 1
          \<and> batch_counts es = replicate (length ch div nat b) b @ [int (length ch mod nat b)]"
proof (induction "length ch" arbitrary: ch d rule: less_induct)
  case less
  from step [OF less.prems]
  obtain es1 where run1: "trunkInsertWith ins d t ch b =
               (Returned (int (length (take (nat b) ch)), None),
                d\<lparr>conn_trace := conn_trace d @ es1\<rparr>, drop (nat b) ch)"
    and c1: "transactions es1 = 1" "batch_counts es1 = [int (length (take (nat b) ch))]"
    by blast
  let ?d1 = "d\<lparr>conn_trace := conn_trace d @ es1\<rparr>"
  show ?case
  proof (cases "length ch < nat b")
    case True
    then have n: "int (length (take (nat b) ch)) \<noteq> b" and e: "drop (nat b) ch = []"
      by simp_all
    have stop: "tableLoop ins ?d1 t [] b (int (length (take (nat b) ch))) = Some (Returned None, ?d1, [])"
      using n by (subst tableLoop.simps) simp
    have "tableLoop ins d t ch b b = Some (Returned None, ?d1, [])"
      using run1 e stop by (subst tableLoop.simps) simp
    with c1 True show ?thesis
      by (intro exI [of _ es1]) simp
  next
    case False
    with b have n: "int (length (take (nat b) ch)) = b" and shorter: "length (drop (nat b) ch) < length ch"
      by simp_all
    have d1: "conn_faults ?d1 = []" "reader_GetColumns ?d1 t = Inr columns"
      using less.prems by simp_all
    from less.hyps [OF shorter d1 rows_handled_drop [OF less.prems(3)]]
    obtain es2 where run2: "tableLoop ins ?d1 t (drop (nat b) ch) b b =
            Some (Returned None, ?d1\<lparr>conn_trace := conn_trace ?d1 @ es2\<rparr>, [])"
      and c2: "transactions es2 = length (drop (nat b) ch) div nat b + 1"
        "batch_counts es2 = replicate (length (drop (nat b) ch) div nat b) b @ [int (length (drop (nat b) ch) mod nat b)]"
      by blast
    have "tableLoop ins d t ch b b = Some (Returned None, d\<lparr>conn_trace := conn_trace d @ es1 @ es2\<rparr>, [])"
      using run1 n run2 by (subst tableLoop.simps) simp
    moreover from b False have "length ch div nat b = Suc ((length ch - nat b) div nat b)"
      by (simp add: le_div_geq)
    moreover from False have "length ch mod nat b = (length ch - nat b) mod nat b"
      by (simp add: le_mod_geq)
    ultimately show ?thesis
      using c1 c2 n by (intro exI [of _ "es1 @ es2"]) simp
  qed
qed

lemma quota_positive: "1 \<le> b \<Longrightarrow> quota b = nat b"
  by (simp add: quota_def)

lemma streaming_step:
  assumes "1 \<le> b" "conn_faults d = []" "reader_GetColumns d t = Inr columns" "rows_handled columns ch"
  shows "\<exists>es. trunkInsertWith insertIntoTable d t ch b =
               (Returned (int (length (take (nat b) ch)), None),
                d\<lparr>conn_trace := conn_trace d @ es\<rparr>, drop (nat b) ch)
             \<and> transactions es = 1 \<and> batch_counts es = [int (length (take (nat b) ch))]"
proof (rule trunkInsertWith_run [OF assms(2)])
  show "\<exists>es. insertIntoTable (emit (ConnBegin None) d) t ch b =
         (Returned (int (length (take (nat b) ch)), None),
          (emit (ConnBegin None) d)\<lparr>conn_trace := conn_trace (emit (ConnBegin None) d) @ es\<rparr>, drop (nat b) ch)
        \<and> transactions es = 0 \<and> batch_counts es = []"
    using insertIntoTable_run [of "emit (ConnBegin None) d" t columns ch b] assms
    by (simp add: emit_def quota_positive)
qed

lemma replace_step:
  assumes "1 \<le> b" "conn_faults d = []" "reader_GetColumns d t = Inr columns" "rows_handled columns ch"
  shows "\<exists>es. trunkInsertWith insertIntoTableReplace d t ch b =
               (Returned (int (length (take (nat b) ch)), None),
                d\<lparr>conn_trace := conn_trace d @ es\<rparr>, drop (nat b) ch)
             \<and> transactions es = 1 \<and> batch_counts es = [int (length (take (nat b) ch))]"
proof (rule trunkInsertWith_run [OF assms(2)])
  show "\<exists>es. insertIntoTableReplace (emit (ConnBegin None) d) t ch b =
         (Returned (int (length (take (nat b) ch)), None),
          (emit (ConnBegin None) d)\<lparr>conn_trace := conn_trace (emit (ConnBegin None) d) @ es\<rparr>, drop (nat b) ch)
        \<and> transactions es = 0 \<and> batch_counts es = []"
    using insertIntoTableReplace_run [of "emit (ConnBegin None) d" t columns ch b] assms
    by (simp add: emit_def quota_positive)
qed

lemma setGlobalInline_Do_quiet:
  assumes "conn_faults d = []"
  shows "\<exists>es once dis infile. setGlobalInline_Do d =
      (None, d\<lparr>conn_trace := conn_trace d @ es, conn_local_infile := infile,
               setGlobalInline := once, disableGlobalInline := dis\<rparr>)
    \<and> transactions es = 0 \<and> batch_counts es = []"
proof (cases "setGlobalInline d")
  case True
  then show ?thesis
    by (intro exI [of _ "[]"] exI [of _ True] exI [of _ "disableGlobalInline d"] exI [of _ "conn_local_infile d"])
       (simp add: setGlobalInline_Do_def)
next
  case False
  show ?thesis
  proof (cases "conn_local_infile d")
    case True
    with False assms show ?thesis
      by (intro exI [of _ "[QueryRowScan select_local_infile (Inr True)]"] exI [of _ True]
            exI [of _ "disableGlobalInline d"] exI [of _ True])
         (simp add: setGlobalInline_Do_def conn_QueryRow_Scan_def answer_def emit_def)
  next
    case infile: False
    with False assms show ?thesis
      by (intro exI [of _ "[QueryRowScan select_local_infile (Inr False), ConnExec set_local_infile_1 None]"]
            exI [of _ True] exI [of _ True] exI [of _ True])
         (simp add: setGlobalInline_Do_def conn_QueryRow_Scan_def conn_Exec_def answer_def emit_def)
  qed
qed

lemma DumpTableWith_run:
  assumes b: "1 \<le> batch d"
    and step: "\<And>d' ch. conn_faults d' = [] \<Longrightarrow> reader_GetColumns d' t = Inr columns \<Longrightarrow>
        rows_handled columns ch \<Longrightarrow>
        \<exists>es. trunkInsertWith ins d' t ch (batch d) =
               (Returned (int (length (take (nat (batch d)) ch)), None),
                d'\<lparr>conn_trace := conn_trace d' @ es\<rparr>, drop (nat (batch d)) ch)
             \<and> transactions es = 1 \<and> batch_counts es = [int (length (take (nat (batch d)) ch))]"
    and q: "conn_faults d = []" "reader_GetColumns d t = Inr columns" "rows_handled columns rows"
  shows "\<exists>d'. DumpTableWith ins d t rows = Some (Returned None, d', [])
     \<and> transactions (conn_trace d') = transactions (conn_trace d) + (length rows div nat (batch d) + 1)
     \<and> batch_counts (conn_trace d') = batch_counts (conn_trace d)
          @ replicate (length rows div nat (batch d)) (batch d) @ [int (length rows mod nat (batch d))]"
proof -
  from setGlobalInline_Do_quiet [OF q(1)]
  obtain es0 once dis infile where once: "setGlobalInline_Do d =
      (None, d\<lparr>conn_trace := conn_trace d @ es0, conn_local_infile := infile,
               setGlobalInline := once, disableGlobalInline := dis\<rparr>)"
    and z: "transactions es0 = 0" "batch_counts es0 = []"
    by blast
  let ?d1 = "d\<lparr>conn_trace := conn_trace d @ es0, conn_local_infile := infile,
               setGlobalInline := once, disableGlobalInline := dis\<rparr>"
  have d1: "conn_faults ?d1 = []" "reader_GetColumns ?d1 t = Inr columns"
    using q by simp_all
  from tableLoop_run [of "batch d" t columns ins ?d1 rows, OF b step d1 q(3)]
  obtain es where run: "tableLoop ins ?d1 t rows (batch d) (batch d) =
            Some (Returned None, ?d1\<lparr>conn_trace := conn_trace ?d1 @ es\<rparr>, [])"
    and c: "transactions es = length rows div nat (batch d) + 1"
      "batch_counts es = replicate (length rows div nat (batch d)) (batch d) @ [int (length rows mod nat (batch d))]"
    by blast
  show ?thesis
    using once run z c
    by (intro exI [of _ "?d1\<lparr>conn_trace := conn_trace ?d1 @ es\<rparr>"])
       (simp add: DumpTableWith_def)
qed

lemma ceiling_quotient:
  assumes "1 \<le> (b::int)" "0 \<le> r" "\<not> b dvd r"
  shows "\<lceil>real_of_int r / real_of_int b\<rceil> = r div b + 1"
proof -
  have "\<lceil>real_of_int r / real_of_int b\<rceil> = - (- r div b)"
    by (rule ceiling_divide_eq_div)
  also have "\<dots> = r div b + 1"
    using assms by (simp add: zdiv_zminus1_eq_if dvd_eq_mod_eq_0)
  finally show ?thesis .
qed

lemma demo_rows_handled: "rows_handled [''id'', ''name''] demo_rows"
  by (simp add: rows_handled_def demo_rows_def demo_row_def index_row_def)

text \<open>
  C1, as the code has it: for a batch size B of at least 1 and a closed channel of R
  rows, with no error from the server or the reader and no field of an unhandled type,
  DumpTable returns
  nil with the channel empty after exactly R div B + 1 invocations of the batch writer,
  each opening one transaction: that is the ceiling of R / B when B does not divide R,
  and R / B + 1 when it does. The invocations wrote B rows each but the last, which
  wrote R mod B rows, fewer than B (none when B divides R): the loop went on after every
  batch of B rows and stopped at the first smaller one.
\<close>

theorem DumpTable_invocations:
  assumes "1 \<le> batch d" and "conn_faults d = []" and "reader_GetColumns d t = Inr columns"
    and "rows_handled columns rows"
  shows "\<exists>d'. DumpTable d t rows = Some (Returned None, d', [])
     \<and> int (transactions (conn_trace d')) - int (transactions (conn_trace d)) =
         (if batch d dvd int (length rows) then int (length rows) div batch d + 1
          else \<lceil>real (length rows) / real_of_int (batch d)\<rceil>)
     \<and> batch_counts (conn_trace d') = batch_counts (conn_trace d)
          @ replicate (nat (int (length rows) div batch d)) (batch d) @ [int (length rows) mod batch d]
     \<and> int (length rows) mod batch d < batch d"
proof -
  let ?B = "batch d"
  have step: "\<exists>es. trunkInsertWith insertIntoTable d' t ch ?B =
               (Returned (int (length (take (nat ?B) ch)), None),
                d'\<lparr>conn_trace := conn_trace d' @ es\<rparr>, drop (nat ?B) ch)
             \<and> transactions es = 1 \<and> batch_counts es = [int (length (take (nat ?B) ch))]"
    if "conn_faults d' = []" "reader_GetColumns d' t = Inr columns" "rows_handled columns ch" for d' ch
    using streaming_step [OF assms(1) that] .
  from DumpTableWith_run [of d t columns insertIntoTable rows, OF assms(1) step assms(2,3,4)]
  obtain d' where run: "DumpTable d t rows = Some (Returned None, d', [])"
    and tx: "transactions (conn_trace d') = transactions (conn_trace d) + (length rows div nat ?B + 1)"
    and cs: "batch_counts (conn_trace d') = batch_counts (conn_trace d)
          @ replicate (length rows div nat ?B) ?B @ [int (length rows mod nat ?B)]"
    unfolding DumpTable_def by blast
  have B: "int (nat ?B) = ?B"
    using assms(1) by simp
  have dv: "int (length rows div nat ?B) = int (length rows) div ?B"
    by (simp only: zdiv_int B)
  have md: "int (length rows mod nat ?B) = int (length rows) mod ?B"
    by (simp only: zmod_int B)
  have count: "int (transactions (conn_trace d')) - int (transactions (conn_trace d)) = int (length rows) div ?B + 1"
    using tx dv by simp
  have ceil: "\<lceil>real (length rows) / real_of_int ?B\<rceil> = int (length rows) div ?B + 1"
    if "\<not> ?B dvd int (length rows)"
    using ceiling_quotient [OF assms(1) _ that] by simp
  have lt: "int (length rows) mod ?B < ?B"
    using assms(1) by simp
  have rep: "nat (int (length rows) div ?B) = length rows div nat ?B"
    using dv by (metis nat_int)
  show ?thesis
    using run count ceil lt cs by (intro exI [of _ d']) (simp add: rep md)
qed

text \<open>
  Five rows and four rows in batches of two: three invocations each, writing 2, 2, 1
  and 2, 2, 0 rows.
\<close>

theorem DumpTable_invocations_witness:
  "1 \<le> batch demo_dumper \<and> conn_faults demo_dumper = []
   \<and> reader_GetColumns demo_dumper ''t'' = Inr [''id'', ''name'']
   \<and> rows_handled [''id'', ''name''] demo_rows
   \<and> (\<exists>d'. DumpTable demo_dumper ''t'' demo_rows = Some (Returned None, d', [])
          \<and> int (transactions (conn_trace d')) = 3
          \<and> batch_counts (conn_trace d') = [2, 2, 1])
   \<and> (\<exists>d'. DumpTable demo_dumper ''t'' (take 4 demo_rows) = Some (Returned None, d', [])
          \<and> int (transactions (conn_trace d')) = 3
          \<and> batch_counts (conn_trace d') = [2, 2, 0])"
proof -
  have h: "1 \<le> batch demo_dumper" "conn_faults demo_dumper = []"
    "reader_GetColumns demo_dumper ''t'' = Inr [''id'', ''name'']"
    by (simp_all add: demo_dumper_def NewDumper_def demo_reader_def)
  have r4: "rows_handled [''id'', ''name''] (take 4 demo_rows)"
    by (simp add: rows_handled_def demo_rows_def demo_row_def index_row_def)
  have tr: "conn_trace demo_dumper = []" "batch demo_dumper = 2"
    by (simp_all add: demo_dumper_def NewDumper_def)
  have l5: "length demo_rows = 5" and l4: "length (take 4 demo_rows) = 4"
    by (simp_all add: demo_rows_def)
  from DumpTable_invocations [OF h demo_rows_handled]
  have five: "\<exists>d'. DumpTable demo_dumper ''t'' demo_rows = Some (Returned None, d', [])
          \<and> int (transactions (conn_trace d')) = 3
          \<and> batch_counts (conn_trace d') = [2, 2, 1]"
    unfolding l5 tr by (simp add: numeral_2_eq_2)
  from DumpTable_invocations [OF h r4]
  have four: "\<exists>d'. DumpTable demo_dumper ''t'' (take 4 demo_rows) = Some (Returned None, d', [])
          \<and> int (transactions (conn_trace d')) = 3
          \<and> batch_counts (conn_trace d') = [2, 2, 0]"
    unfolding l4 tr by (simp add: numeral_2_eq_2)
  from h demo_rows_handled five four show ?thesis by simp
qed

text \<open>
  With a batch size of -2 and five rows, DumpTable returns nil after one invocation
  that wrote one row, and four rows are left on the channel; the ceiling of 5 / (-2) is
  -2.
\<close>

theorem DumpTable_negative_batch:
  "map_option fst (DumpTable negative_dumper ''t'' demo_rows) = Some (Returned None)
   \<and> map_option (transactions \<circ> conn_trace \<circ> fst \<circ> snd) (DumpTable negative_dumper ''t'' demo_rows) = Some 1
   \<and> map_option (batch_counts \<circ> conn_trace \<circ> fst \<circ> snd) (DumpTable negative_dumper ''t'' demo_rows) = Some [1]
   \<and> map_option (length \<circ> snd \<circ> snd) (DumpTable negative_dumper ''t'' demo_rows) = Some 4
   \<and> length demo_rows = 5 \<and> batch negative_dumper = - 2
   \<and> \<not> (- 2 :: int) dvd 5 \<and> \<lceil>5 / (- 2) :: real\<rceil> = - 2"
proof -
  have run: "DumpTable negative_dumper ''t'' demo_rows =
    Some (Returned None,
      negative_dumper\<lparr>conn_trace :=
         [QueryRowScan select_local_infile (Inr True), ConnBegin None,
          CsvWrite [''1'', ''a,b''], TxExec set_foreign_key_checks None,
          TxExec (load_data_query ''t'' (map quoteIdentifier [''id'', ''name''])) None,
          LogDebugInserted ''t'' 1, TxCommit None],
        setGlobalInline := True\<rparr>,
      tl demo_rows)"
    by (simp add: DumpTable_def DumpTableWith_def negative_dumper_def NewDumper_def
      setGlobalInline_Do_def conn_QueryRow_Scan_def answer_def emit_def
      tableLoop.simps trunkInsertWith_def conn_Begin_def insertIntoTable_def
      demo_reader_def demo_rows_def demo_row_def rowValues_def index_row_def
      txn_Exec_def txn_Commit_def)
  show ?thesis
    unfolding run by (simp add: demo_rows_def negative_dumper_def NewDumper_def)
qed

subsection \<open>Rows written\<close>

lemma row_group_fun: "row_group = (\<lambda>vals. ''('' @ strings_Join vals '','' @ '')'')"
  by (rule ext) (simp add: row_group_def)

lemma producer_records:
  "rows_handled columns rowChan \<Longrightarrow>
   producer columns b i rowChan d =
     (Returned (i + int (length (take (quota (b - i)) rowChan))),
      d\<lparr>conn_trace := conn_trace d
          @ map (\<lambda>row. CsvWrite (values_of (rowValues columns row))) (take (quota (b - i)) rowChan)\<rparr>,
      drop (quota (b - i)) rowChan)"
proof (induction rowChan arbitrary: i d)
  case Nil
  show ?case by simp
next
  case (Cons row rowChan)
  from Cons.prems obtain vals where vals: "rowValues columns row = Returned vals"
    using rowValues_handled by (auto simp: rows_handled_def)
  from Cons.prems have rest: "rows_handled columns rowChan"
    by (simp add: rows_handled_def)
  show ?case
  proof (cases "i + 1 \<ge> b")
    case True
    then have q: "quota (b - i) = 1" by (simp add: quota_def)
    show ?thesis
      using True vals by (simp add: q emit_def values_of_def)
  next
    case False
    then have q: "quota (b - i) = Suc (quota (b - (i + 1)))"
      by (simp add: quota_def)
    from Cons.IH [OF rest, of "i + 1" "emit (CsvWrite vals) d"] show ?thesis
      using False vals by (simp add: q emit_def values_of_def)
  qed
qed

lemma insertIntoTable_records:
  assumes "conn_faults d = []" "reader_GetColumns d t = Inr columns" "rows_handled columns rowChan"
  shows "insertIntoTable d t rowChan b =
          (Returned (int (length (take (quota b) rowChan)), None),
           d\<lparr>conn_trace := conn_trace d
              @ map (\<lambda>row. CsvWrite (values_of (rowValues columns row))) (take (quota b) rowChan)
              @ [TxExec set_foreign_key_checks None,
                 TxExec (load_data_query t (map quoteIdentifier columns)) None]\<rparr>,
           drop (quota b) rowChan)"
  using assms producer_records [OF assms(3), of b 0 d]
  by (simp add: insertIntoTable_def txn_Exec_def answer_def emit_def)

lemma trunkInsertWith_trace:
  assumes "conn_faults d = []"
    and "ins (emit (ConnBegin None) d) t rowChan b =
            (Returned (n, None),
             (emit (ConnBegin None) d)\<lparr>conn_trace := conn_trace (emit (ConnBegin None) d) @ es\<rparr>, ch)"
  shows "trunkInsertWith ins d t rowChan b =
          (Returned (n, None),
           d\<lparr>conn_trace := conn_trace d @ ConnBegin None # es @ [LogDebugInserted t n, TxCommit None]\<rparr>, ch)"
  using assms
  by (simp add: trunkInsertWith_def conn_Begin_def txn_Commit_def answer_def emit_def)

lemma tableLoop_written:
  assumes b: "1 \<le> b"
    and empty: "W [] = []"
    and step: "\<And>d ch. conn_faults d = [] \<Longrightarrow> reader_GetColumns d t = Inr columns \<Longrightarrow>
        rows_handled columns ch \<Longrightarrow>
        \<exists>es. trunkInsertWith ins d t ch b =
               (Returned (int (length (take (nat b) ch)), None),
                d\<lparr>conn_trace := conn_trace d @ es\<rparr>, drop (nat b) ch)
             \<and> concat (map pe es) = W (take (nat b) ch)"
  shows "conn_faults d = [] \<Longrightarrow> reader_GetColumns d t = Inr columns \<Longrightarrow> rows_handled columns ch \<Longrightarrow>
     \<exists>es chunks. tableLoop ins d t ch b b =
            Some (Returned None, d\<lparr>conn_trace := conn_trace d @ es\<rparr>, [])
          \<and> concat (map pe es) = concat (map W chunks)
          \<and> concat chunks = ch
          \<and> list_all (\<lambda>c. c \<noteq> [] \<and> int (length c) \<le> b) chunks"
proof (induction "length ch" arbitrary: ch d rule: less_induct)
  case less
  from step [OF less.prems]
  obtain es1 where run1: "trunkInsertWith ins d t ch b =
               (Returned (int (length (take (nat b) ch)), None),
                d\<lparr>conn_trace := conn_trace d @ es1\<rparr>, drop (nat b) ch)"
    and w1: "concat (map pe es1) = W (take (nat b) ch)"
    by blast
  let ?d1 = "d\<lparr>conn_trace := conn_trace d @ es1\<rparr>"
  show ?case
  proof (cases "length ch < nat b")
    case True
    then have n: "int (length (take (nat b) ch)) \<noteq> b" and e: "drop (nat b) ch = []"
      and t: "take (nat b) ch = ch"
      by simp_all
    have stop: "tableLoop ins ?d1 t [] b (int (length (take (nat b) ch))) = Some (Returned None, ?d1, [])"
      using n by (subst tableLoop.simps) simp
    have run: "tableLoop ins d t ch b b = Some (Returned None, ?d1, [])"
      using run1 e stop by (subst tableLoop.simps) simp
    show ?thesis
    proof (cases "ch = []")
      case True
      with run w1 empty show ?thesis
        by (intro exI [of _ es1] exI [of _ "[]"]) simp
    next
      case False
      with run w1 t True show ?thesis
        by (intro exI [of _ es1] exI [of _ "[ch]"]) simp
    qed
  next
    case False
    with b have n: "int (length (take (nat b) ch)) = b" and shorter: "length (drop (nat b) ch) < length ch"
      and ne: "take (nat b) ch \<noteq> []"
      by auto
    have d1: "conn_faults ?d1 = []" "reader_GetColumns ?d1 t = Inr columns"
      using less.prems by simp_all
    from less.hyps [OF shorter d1 rows_handled_drop [OF less.prems(3)]]
    obtain es2 chunks where run2: "tableLoop ins ?d1 t (drop (nat b) ch) b b =
            Some (Returned None, ?d1\<lparr>conn_trace := conn_trace ?d1 @ es2\<rparr>, [])"
      and w2: "concat (map pe es2) = concat (map W chunks)"
      and c2: "concat chunks = drop (nat b) ch"
        "list_all (\<lambda>c. c \<noteq> [] \<and> int (length c) \<le> b) chunks"
      by blast
    have "tableLoop ins d t ch b b = Some (Returned None, d\<lparr>conn_trace := conn_trace d @ es1 @ es2\<rparr>, [])"
      using run1 n run2 by (subst tableLoop.simps) simp
    then show ?thesis
      using w1 w2 c2 n ne
      by (intro exI [of _ "es1 @ es2"] exI [of _ "take (nat b) ch # chunks"]) simp
  qed
qed

lemma setGlobalInline_Do_global:
  assumes "conn_faults d = []"
  shows "\<exists>es once dis infile. setGlobalInline_Do d =
      (None, d\<lparr>conn_trace := conn_trace d @ es, conn_local_infile := infile,
               setGlobalInline := once, disableGlobalInline := dis\<rparr>)
    \<and> list_all is_global es"
proof (cases "setGlobalInline d")
  case True
  then show ?thesis
    by (intro exI [of _ "[]"] exI [of _ True] exI [of _ "disableGlobalInline d"] exI [of _ "conn_local_infile d"])
       (simp add: setGlobalInline_Do_def)
next
  case False
  show ?thesis
  proof (cases "conn_local_infile d")
    case True
    with False assms show ?thesis
      by (intro exI [of _ "[QueryRowScan select_local_infile (Inr True)]"] exI [of _ True]
            exI [of _ "disableGlobalInline d"] exI [of _ True])
         (simp add: setGlobalInline_Do_def conn_QueryRow_Scan_def answer_def emit_def)
  next
    case infile: False
    with False assms show ?thesis
      by (intro exI [of _ "[QueryRowScan select_local_infile (Inr False), ConnExec set_local_infile_1 None]"]
            exI [of _ True] exI [of _ True] exI [of _ True])
         (simp add: setGlobalInline_Do_def conn_QueryRow_Scan_def conn_Exec_def answer_def emit_def)
  qed
qed

lemma concat_map_quiet:
  assumes "\<And>e. is_global e \<Longrightarrow> pe e = []" "list_all is_global es"
  shows "concat (map pe es) = []"
  using assms by (induction es) auto

lemma DumpTableWith_written:
  assumes b: "1 \<le> batch d"
    and empty: "W [] = []"
    and quiet: "\<And>e. is_global e \<Longrightarrow> pe e = []"
    and step: "\<And>d' ch. conn_faults d' = [] \<Longrightarrow> reader_GetColumns d' t = Inr columns \<Longrightarrow>
        rows_handled columns ch \<Longrightarrow>
        \<exists>es. trunkInsertWith ins d' t ch (batch d) =
               (Returned (int (length (take (nat (batch d)) ch)), None),
                d'\<lparr>conn_trace := conn_trace d' @ es\<rparr>, drop (nat (batch d)) ch)
             \<and> concat (map pe es) = W (take (nat (batch d)) ch)"
    and q: "conn_faults d = []" "reader_GetColumns d t = Inr columns" "rows_handled columns rows"
  shows "\<exists>d' chunks. DumpTableWith ins d t rows = Some (Returned None, d', [])
     \<and> concat (map pe (conn_trace d')) = concat (map pe (conn_trace d)) @ concat (map W chunks)
     \<and> concat chunks = rows
     \<and> list_all (\<lambda>c. c \<noteq> [] \<and> int (length c) \<le> batch d) chunks"
proof -
  from setGlobalInline_Do_global [OF q(1)]
  obtain es0 once dis infile where once: "setGlobalInline_Do d =
      (None, d\<lparr>conn_trace := conn_trace d @ es0, conn_local_infile := infile,
               setGlobalInline := once, disableGlobalInline := dis\<rparr>)"
    and g: "list_all is_global es0"
    by blast
  have z: "concat (map pe es0) = []"
    using quiet g by (rule concat_map_quiet)
  let ?d1 = "d\<lparr>conn_trace := conn_trace d @ es0, conn_local_infile := infile,
               setGlobalInline := once, disableGlobalInline := dis\<rparr>"
  have d1: "conn_faults ?d1 = []" "reader_GetColumns ?d1 t = Inr columns"
    using q by simp_all
  from tableLoop_written [of "batch d" W t columns ins pe ?d1 rows, OF b empty step d1 q(3)]
  obtain es chunks where run: "tableLoop ins ?d1 t rows (batch d) (batch d) =
            Some (Returned None, ?d1\<lparr>conn_trace := conn_trace ?d1 @ es\<rparr>, [])"
    and c: "concat (map pe es) = concat (map W chunks)" "concat chunks = rows"
      "list_all (\<lambda>c. c \<noteq> [] \<and> int (length c) \<le> batch d) chunks"
    by blast
  show ?thesis
    using once run z c
    by (intro exI [of _ "?d1\<lparr>conn_trace := conn_trace ?d1 @ es\<rparr>"] exI [of _ chunks])
       (simp add: DumpTableWith_def)
qed

lemma csv_of_CsvWrite: "concat (map (csv_of \<circ> (\<lambda>row. CsvWrite (f row))) rows) = map f rows"
  by (induction rows) simp_all

lemma handled_values_of:
  assumes "\<And>row. list_all (\<lambda>col. handled (index_row row col)) columns \<Longrightarrow> \<exists>vals. enc row = Returned vals"
  shows "rows_handled columns rows \<Longrightarrow> map Returned (map (\<lambda>row. values_of (enc row)) rows) = map enc rows"
proof (induction rows)
  case Nil
  show ?case by simp
next
  case (Cons row rows)
  from Cons.prems assms obtain vals where "enc row = Returned vals"
    by (auto simp: rows_handled_def)
  moreover from Cons have "map Returned (map (\<lambda>row. values_of (enc row)) rows) = map enc rows"
    by (simp add: rows_handled_def)
  ultimately show ?case by (simp add: values_of_def)
qed

lemma streaming_written_step:
  assumes "1 \<le> b" "conn_faults d = []" "reader_GetColumns d t = Inr columns" "rows_handled columns ch"
  shows "\<exists>es. trunkInsertWith insertIntoTable d t ch b =
               (Returned (int (length (take (nat b) ch)), None),
                d\<lparr>conn_trace := conn_trace d @ es\<rparr>, drop (nat b) ch)
             \<and> concat (map csv_of es) = map (\<lambda>row. values_of (rowValues columns row)) (take (nat b) ch)"
proof -
  let ?es = "map (\<lambda>row. CsvWrite (values_of (rowValues columns row))) (take (nat b) ch)
              @ [TxExec set_foreign_key_checks None,
                 TxExec (load_data_query t (map quoteIdentifier columns)) None]"
  have ins: "insertIntoTable (emit (ConnBegin None) d) t ch b =
         (Returned (int (length (take (nat b) ch)), None),
          (emit (ConnBegin None) d)\<lparr>conn_trace := conn_trace (emit (ConnBegin None) d) @ ?es\<rparr>,
          drop (nat b) ch)"
    using insertIntoTable_records [of "emit (ConnBegin None) d" t columns ch b] assms
    by (simp add: emit_def quota_positive)
  from trunkInsertWith_trace [where ins = insertIntoTable and es = "?es", OF assms(2) ins] show ?thesis
    by (intro exI [of _ "ConnBegin None # ?es @ [LogDebugInserted t (int (length (take (nat b) ch))), TxCommit None]"])
       (simp add: csv_of_CsvWrite)
qed

lemma replace_text_not_preamble: "replace_text t vss \<noteq> set_foreign_key_checks"
  by (simp add: replace_text_def set_foreign_key_checks_def)

lemma insertIntoTableReplace_records:
  assumes "conn_faults d = []" "reader_GetColumns d t = Inr columns" "rows_handled columns rowChan"
  shows "insertIntoTableReplace d t rowChan b =
          (Returned (int (length (take (quota b) rowChan)), None),
           d\<lparr>conn_trace := conn_trace d @
              (if rowChan = [] then []
               else [TxExec set_foreign_key_checks None,
                     TxExec (replace_text t (map (\<lambda>row. values_of (rowValuesReplace columns row))
                        (take (quota b) rowChan))) None])\<rparr>,
           drop (quota b) rowChan)"
proof -
  let ?vss = "map (\<lambda>row. values_of (rowValuesReplace columns row)) (take (quota b) rowChan)"
  have "map Returned ?vss = map (rowValuesReplace columns) (take (quota b) rowChan)"
    by (rule handled_values_of [OF rowValuesReplace_handled rows_handled_take [OF assms(3)]])
  then have vss: "map (rowValuesReplace columns) (take (quota b) rowChan) = map Returned ?vss"
    by simp
  have len: "length ?vss = length (take (quota b) rowChan)"
    by simp
  note run = replace_rows_first [OF vss, of "''replace into '' @ t @ '' values ''"]
  show ?thesis
  proof (cases "rowChan = []")
    case True
    with run assms(2) show ?thesis
      by (simp add: insertIntoTableReplace_def)
  next
    case False
    then have "length (take (quota b) rowChan) \<noteq> 0"
      by (simp add: quota_def)
    with run assms(1,2) False show ?thesis
      by (auto simp: insertIntoTableReplace_def txn_Exec_def answer_def emit_def min_def replace_text_def
          simp del: map_map)
  qed
qed

lemma replace_written_step:
  assumes "1 \<le> b" "conn_faults d = []" "reader_GetColumns d t = Inr columns" "rows_handled columns ch"
  shows "\<exists>es. trunkInsertWith insertIntoTableReplace d t ch b =
               (Returned (int (length (take (nat b) ch)), None),
                d\<lparr>conn_trace := conn_trace d @ es\<rparr>, drop (nat b) ch)
             \<and> concat (map stmt_of es) = replace_written t columns (take (nat b) ch)"
proof -
  let ?es = "(if ch = [] then []
               else [TxExec set_foreign_key_checks None,
                     TxExec (replace_text t (map (\<lambda>row. values_of (rowValuesReplace columns row))
                        (take (nat b) ch))) None])"
  have ins: "insertIntoTableReplace (emit (ConnBegin None) d) t ch b =
         (Returned (int (length (take (nat b) ch)), None),
          (emit (ConnBegin None) d)\<lparr>conn_trace := conn_trace (emit (ConnBegin None) d) @ ?es\<rparr>,
          drop (nat b) ch)"
    using insertIntoTableReplace_records [of "emit (ConnBegin None) d" t columns ch b] assms
    by (simp add: emit_def quota_positive)
  have pos: "nat b \<noteq> 0"
    using assms(1) by simp
  from trunkInsertWith_trace [where ins = insertIntoTableReplace and es = "?es", OF assms(2) ins] pos show ?thesis
    by (intro exI [of _ "ConnBegin None # ?es @ [LogDebugInserted t (int (length (take (nat b) ch))), TxCommit None]"])
       (simp add: replace_written_def replace_text_not_preamble)
qed

lemma replace_written_chunks:
  "list_all (\<lambda>c. c \<noteq> [] \<and> int (length c) \<le> b) chunks \<Longrightarrow>
   concat (map (replace_written t columns) chunks)
     = map (replace_text t) (map (map (\<lambda>row. values_of (rowValuesReplace columns row))) chunks)"
  by (induction chunks) (simp_all add: replace_written_def)

lemma csv_of_global: "is_global e \<Longrightarrow> csv_of e = []"
  by (cases e) simp_all

lemma stmt_of_global: "is_global e \<Longrightarrow> stmt_of e = []"
  by (cases e) simp_all

lemma replace_text_fun:
  "replace_text t = (\<lambda>vss. ''replace into '' @ t @ '' values ''
      @ strings_Join (map (\<lambda>vals. ''('' @ strings_Join vals '','' @ '')'') vss) '','')"
  by (rule ext) (simp add: replace_text_def row_group_fun)

lemma batch_counts_total:
  assumes "1 \<le> (b::int)"
  shows "sum_list (replicate (n div nat b) b @ [int (n mod nat b)]) = int n"
proof -
  have B: "int (nat b) = b"
    using assms by simp
  have "sum_list (replicate (n div nat b) b @ [int (n mod nat b)]) = int (n div nat b) * b + int (n mod nat b)"
    by (simp add: sum_list_replicate)
  also have "\<dots> = int (n div nat b) * int (nat b) + int (n mod nat b)"
    by (simp only: B)
  also have "\<dots> = int (n div nat b * nat b + n mod nat b)"
    by (simp only: of_nat_mult of_nat_add)
  also have "\<dots> = int n"
    by (simp only: div_mult_mod_eq)
  finally show ?thesis .
qed

text \<open>
  C2, as the code has it: for a batch size of at least 1 and a closed channel of R
  rows in which every field of a listed column is nil, a string or a byte slice, when
  the column lookup succeeds and no call on the connection fails, the table write with
  either strategy returns nil with the channel empty and the row counts of its batches
  add up to R. Every row is written once, in order: with the streaming strategy the
  records handed to the CSV writer are exactly the encodings of the R rows; with the
  replace strategy the statements executed are the replace texts of groups of at most B
  encoded rows, none empty, and the groups one after the other are exactly the
  encodings of the R rows.
\<close>

theorem rows_written_once:
  assumes "1 \<le> batch d" and "conn_faults d = []" and "reader_GetColumns d t = Inr columns"
    and "rows_handled columns rows"
  shows "(\<exists>d' counts records. DumpTableWith insertIntoTable d t rows = Some (Returned None, d', [])
            \<and> batch_counts (conn_trace d') = batch_counts (conn_trace d) @ counts
            \<and> sum_list counts = int (length rows)
            \<and> csv_records (conn_trace d') = csv_records (conn_trace d) @ records
            \<and> map Returned records = map (rowValues columns) rows)
       \<and> (\<exists>d' counts groups. DumpTableWith insertIntoTableReplace d t rows = Some (Returned None, d', [])
            \<and> batch_counts (conn_trace d') = batch_counts (conn_trace d) @ counts
            \<and> sum_list counts = int (length rows)
            \<and> statements (conn_trace d') = statements (conn_trace d)
                 @ map (\<lambda>vss. ''replace into '' @ t @ '' values ''
                         @ strings_Join (map (\<lambda>vals. ''('' @ strings_Join vals '','' @ '')'') vss) '','') groups
            \<and> list_all (\<lambda>vss. vss \<noteq> [] \<and> int (length vss) \<le> batch d) groups
            \<and> map Returned (concat groups) = map (rowValuesReplace columns) rows)"
proof -
  let ?B = "batch d"
  let ?counts = "replicate (length rows div nat ?B) ?B @ [int (length rows mod nat ?B)]"
  let ?f = "\<lambda>row. values_of (rowValues columns row)"
  let ?g = "\<lambda>row. values_of (rowValuesReplace columns row)"
  note total = batch_counts_total [OF assms(1), of "length rows"]
  have s1: "\<exists>es. trunkInsertWith insertIntoTable d' t ch ?B =
               (Returned (int (length (take (nat ?B) ch)), None),
                d'\<lparr>conn_trace := conn_trace d' @ es\<rparr>, drop (nat ?B) ch)
             \<and> transactions es = 1 \<and> batch_counts es = [int (length (take (nat ?B) ch))]"
    if "conn_faults d' = []" "reader_GetColumns d' t = Inr columns" "rows_handled columns ch" for d' ch
    using streaming_step [OF assms(1) that] .
  have s2: "\<exists>es. trunkInsertWith insertIntoTableReplace d' t ch ?B =
               (Returned (int (length (take (nat ?B) ch)), None),
                d'\<lparr>conn_trace := conn_trace d' @ es\<rparr>, drop (nat ?B) ch)
             \<and> transactions es = 1 \<and> batch_counts es = [int (length (take (nat ?B) ch))]"
    if "conn_faults d' = []" "reader_GetColumns d' t = Inr columns" "rows_handled columns ch" for d' ch
    using replace_step [OF assms(1) that] .
  have w1: "\<exists>es. trunkInsertWith insertIntoTable d' t ch ?B =
               (Returned (int (length (take (nat ?B) ch)), None),
                d'\<lparr>conn_trace := conn_trace d' @ es\<rparr>, drop (nat ?B) ch)
             \<and> concat (map csv_of es) = map ?f (take (nat ?B) ch)"
    if "conn_faults d' = []" "reader_GetColumns d' t = Inr columns" "rows_handled columns ch" for d' ch
    using streaming_written_step [OF assms(1) that] .
  have w2: "\<exists>es. trunkInsertWith insertIntoTableReplace d' t ch ?B =
               (Returned (int (length (take (nat ?B) ch)), None),
                d'\<lparr>conn_trace := conn_trace d' @ es\<rparr>, drop (nat ?B) ch)
             \<and> concat (map stmt_of es) = replace_written t columns (take (nat ?B) ch)"
    if "conn_faults d' = []" "reader_GetColumns d' t = Inr columns" "rows_handled columns ch" for d' ch
    using replace_written_step [OF assms(1) that] .
  have one: "\<exists>d' counts records. DumpTableWith insertIntoTable d t rows = Some (Returned None, d', [])
            \<and> batch_counts (conn_trace d') = batch_counts (conn_trace d) @ counts
            \<and> sum_list counts = int (length rows)
            \<and> csv_records (conn_trace d') = csv_records (conn_trace d) @ records
            \<and> map Returned records = map (rowValues columns) rows"
  proof -
    from DumpTableWith_run [of d t columns insertIntoTable rows, OF assms(1) s1 assms(2,3,4)]
    obtain d' where run: "DumpTableWith insertIntoTable d t rows = Some (Returned None, d', [])"
      and cs: "batch_counts (conn_trace d') = batch_counts (conn_trace d) @ ?counts"
      by blast
    from DumpTableWith_written [of d "map ?f" csv_of t columns insertIntoTable rows,
        OF assms(1) _ csv_of_global w1 assms(2,3,4)]
    obtain d'' chunks where run': "DumpTableWith insertIntoTable d t rows = Some (Returned None, d'', [])"
      and wr: "concat (map csv_of (conn_trace d'')) = concat (map csv_of (conn_trace d)) @ concat (map (map ?f) chunks)"
      and ch: "concat chunks = rows"
      by blast
    from run run' have same: "d'' = d'" by simp
    have "concat (map (map ?f) chunks) = map ?f (concat chunks)"
      by (simp add: map_concat)
    with wr ch same have rec: "csv_records (conn_trace d') = csv_records (conn_trace d) @ map ?f rows"
      by (simp add: csv_records_def)
    have enc: "map Returned (map ?f rows) = map (rowValues columns) rows"
      by (rule handled_values_of [OF rowValues_handled assms(4)])
    show ?thesis
    proof (intro exI conjI)
      show "DumpTableWith insertIntoTable d t rows = Some (Returned None, d', [])" by (rule run)
      show "batch_counts (conn_trace d') = batch_counts (conn_trace d) @ ?counts" by (rule cs)
      show "sum_list ?counts = int (length rows)" by (rule total)
      show "csv_records (conn_trace d') = csv_records (conn_trace d) @ map ?f rows" by (rule rec)
      show "map Returned (map ?f rows) = map (rowValues columns) rows" by (rule enc)
    qed
  qed
  have two: "\<exists>d' counts groups. DumpTableWith insertIntoTableReplace d t rows = Some (Returned None, d', [])
            \<and> batch_counts (conn_trace d') = batch_counts (conn_trace d) @ counts
            \<and> sum_list counts = int (length rows)
            \<and> statements (conn_trace d') = statements (conn_trace d)
                 @ map (\<lambda>vss. ''replace into '' @ t @ '' values ''
                         @ strings_Join (map (\<lambda>vals. ''('' @ strings_Join vals '','' @ '')'') vss) '','') groups
            \<and> list_all (\<lambda>vss. vss \<noteq> [] \<and> int (length vss) \<le> batch d) groups
            \<and> map Returned (concat groups) = map (rowValuesReplace columns) rows"
  proof -
    from DumpTableWith_run [of d t columns insertIntoTableReplace rows, OF assms(1) s2 assms(2,3,4)]
    obtain d' where run: "DumpTableWith insertIntoTableReplace d t rows = Some (Returned None, d', [])"
      and cs: "batch_counts (conn_trace d') = batch_counts (conn_trace d) @ ?counts"
      by blast
    have e: "replace_written t columns [] = []"
      by (simp add: replace_written_def)
    from DumpTableWith_written [of d "replace_written t columns" stmt_of t columns insertIntoTableReplace rows,
        OF assms(1) e stmt_of_global w2 assms(2,3,4)]
    obtain d'' chunks where run': "DumpTableWith insertIntoTableReplace d t rows = Some (Returned None, d'', [])"
      and wr: "concat (map stmt_of (conn_trace d'')) = concat (map stmt_of (conn_trace d))
                 @ concat (map (replace_written t columns) chunks)"
      and ch: "concat chunks = rows"
      and sz: "list_all (\<lambda>c. c \<noteq> [] \<and> int (length c) \<le> batch d) chunks"
      by blast
    from run run' have same: "d'' = d'" by simp
    let ?groups = "map (map ?g) chunks"
    from wr same replace_written_chunks [OF sz, of t columns]
    have st: "statements (conn_trace d') = statements (conn_trace d) @ map (replace_text t) ?groups"
      by (simp add: statements_def)
    have gs: "list_all (\<lambda>vss. vss \<noteq> [] \<and> int (length vss) \<le> batch d) ?groups"
      using sz by (simp add: list_all_iff)
    have "concat ?groups = map ?g (concat chunks)"
      by (simp add: map_concat)
    with ch have cg: "concat ?groups = map ?g rows"
      by simp
    have enc: "map Returned (concat ?groups) = map (rowValuesReplace columns) rows"
      unfolding cg by (rule handled_values_of [OF rowValuesReplace_handled assms(4)])
    note st' = st [unfolded replace_text_fun]
    show ?thesis
    proof (intro exI conjI)
      show "DumpTableWith insertIntoTableReplace d t rows = Some (Returned None, d', [])" by (rule run)
      show "batch_counts (conn_trace d') = batch_counts (conn_trace d) @ ?counts" by (rule cs)
      show "sum_list ?counts = int (length rows)" by (rule total)
      show "statements (conn_trace d') = statements (conn_trace d)
                 @ map (\<lambda>vss. ''replace into '' @ t @ '' values ''
                         @ strings_Join (map (\<lambda>vals. ''('' @ strings_Join vals '','' @ '')'') vss) '','') ?groups"
        by (rule st')
      show "list_all (\<lambda>vss. vss \<noteq> [] \<and> int (length vss) \<le> batch d) ?groups" by (rule gs)
      show "map Returned (concat ?groups) = map (rowValuesReplace columns) rows" by (rule enc)
    qed
  qed
  from one two show ?thesis ..
qed

text \<open>Five rows in batches of two, with each strategy.\<close>

theorem rows_written_once_witness:
  "1 \<le> batch demo_dumper \<and> conn_faults demo_dumper = []
   \<and> reader_GetColumns demo_dumper ''t'' = Inr [''id'', ''name'']
   \<and> rows_handled [''id'', ''name''] demo_rows
   \<and> (\<exists>d' counts. DumpTableWith insertIntoTable demo_dumper ''t'' demo_rows = Some (Returned None, d', [])
          \<and> batch_counts (conn_trace d') = counts \<and> sum_list counts = 5
          \<and> map Returned (csv_records (conn_trace d')) = map (rowValues [''id'', ''name'']) demo_rows)
   \<and> (\<exists>d' counts groups. DumpTableWith insertIntoTableReplace demo_dumper ''t'' demo_rows = Some (Returned None, d', [])
          \<and> batch_counts (conn_trace d') = counts \<and> sum_list counts = 5
          \<and> statements (conn_trace d') =
               map (\<lambda>vss. ''replace into t values ''
                       @ strings_Join (map (\<lambda>vals. ''('' @ strings_Join vals '','' @ '')'') vss) '','') groups
          \<and> map Returned (concat groups) = map (rowValuesReplace [''id'', ''name'']) demo_rows)"
proof -
  have h: "1 \<le> batch demo_dumper" "conn_faults demo_dumper = []"
    "reader_GetColumns demo_dumper ''t'' = Inr [''id'', ''name'']"
    by (simp_all add: demo_dumper_def NewDumper_def demo_reader_def)
  have tr: "conn_trace demo_dumper = []"
    by (simp add: demo_dumper_def NewDumper_def)
  have l5: "length demo_rows = 5"
    by (simp add: demo_rows_def)
  note inst = rows_written_once [OF h demo_rows_handled, unfolded l5 tr]
  from inst obtain d1 counts1 records where
    a: "DumpTableWith insertIntoTable demo_dumper ''t'' demo_rows = Some (Returned None, d1, [])"
      "batch_counts (conn_trace d1) = batch_counts [] @ counts1" "sum_list counts1 = int 5"
      "csv_records (conn_trace d1) = csv_records [] @ records"
      "map Returned records = map (rowValues [''id'', ''name'']) demo_rows"
    by blast
  from inst obtain d2 counts2 groups where
    b: "DumpTableWith insertIntoTableReplace demo_dumper ''t'' demo_rows = Some (Returned None, d2, [])"
      "batch_counts (conn_trace d2) = batch_counts [] @ counts2" "sum_list counts2 = int 5"
      "statements (conn_trace d2) = statements []
                 @ map (\<lambda>vss. ''replace into '' @ ''t'' @ '' values ''
                         @ strings_Join (map (\<lambda>vals. ''('' @ strings_Join vals '','' @ '')'') vss) '','') groups"
      "map Returned (concat groups) = map (rowValuesReplace [''id'', ''name'']) demo_rows"
    by blast
  have one: "\<exists>d' counts. DumpTableWith insertIntoTable demo_dumper ''t'' demo_rows = Some (Returned None, d', [])
          \<and> batch_counts (conn_trace d') = counts \<and> sum_list counts = 5
          \<and> map Returned (csv_records (conn_trace d')) = map (rowValues [''id'', ''name'']) demo_rows"
    using a by (intro exI [of _ d1] exI [of _ counts1]) (simp add: csv_records_def)
  have two: "\<exists>d' counts groups. DumpTableWith insertIntoTableReplace demo_dumper ''t'' demo_rows = Some (Returned None, d', [])
          \<and> batch_counts (conn_trace d') = counts \<and> sum_list counts = 5
          \<and> statements (conn_trace d') =
               map (\<lambda>vss. ''replace into t values ''
                       @ strings_Join (map (\<lambda>vals. ''('' @ strings_Join vals '','' @ '')'') vss) '','') groups
          \<and> map Returned (concat groups) = map (rowValuesReplace [''id'', ''name'']) demo_rows"
    using b by (intro exI [of _ d2] exI [of _ counts2] exI [of _ groups]) (simp add: statements_def)
  from h demo_rows_handled one two show ?thesis
    by blast
qed

text \<open>
  A row with a field of type int64 makes either strategy panic, with no server fault
  and the columns found; so does a reader that cannot give the columns. Neither run
  counts its rows.
\<close>

theorem rows_written_once_needs_handled_fields:
  "1 \<le> batch demo_dumper \<and> conn_faults demo_dumper = []
   \<and> map_option fst (DumpTableWith insertIntoTable demo_dumper ''t'' unhandled_rows)
        = Some (Panicked ''interface conversion: interface {} is int64, not string'')
   \<and> map_option fst (DumpTableWith insertIntoTableReplace demo_dumper ''t'' unhandled_rows)
        = Some (Panicked ''interface conversion: interface {} is int64, not string'')
   \<and> 1 \<le> batch unreadable_dumper \<and> conn_faults unreadable_dumper = []
   \<and> map_option fst (DumpTableWith insertIntoTable unreadable_dumper ''t'' demo_rows)
        = Some (Panicked ''failed to insert rows: failed to get columns: no such table'')
   \<and> map_option fst (DumpTableWith insertIntoTableReplace unreadable_dumper ''t'' demo_rows)
        = Some (Panicked ''failed to insert rows: failed to get columns: no such table'')"
  by (simp add: DumpTableWith_def demo_dumper_def unreadable_dumper_def NewDumper_def
      setGlobalInline_Do_def conn_QueryRow_Scan_def answer_def emit_def
      tableLoop.simps trunkInsertWith_def conn_Begin_def insertIntoTable_def insertIntoTableReplace_def
      demo_reader_def failing_reader_def unhandled_rows_def demo_row_def
      rowValues_def rowValuesReplace_def index_row_def interface_conversion_def
      txn_Rollback_def)

subsection \<open>The statement of the replace strategy\<close>

text \<open>
  C7: for a channel that is not empty, the replace strategy executes, after the
  foreign key preamble, exactly the text "replace into ", the table name as given,
  " values ", and one parenthesised group per row of the batch, the groups joined by
  commas and each group holding the row's encoded fields joined by commas. The encoded
  fields stand in the text as they are.
\<close>

theorem replace_statement_text:
  assumes "reader_GetColumns d t = Inr columns" and "rowChan \<noteq> []"
    and "map (rowValuesReplace columns) (take (max 1 (nat b)) rowChan) = map Returned vss"
    and "conn_faults d = []"
  shows "insertIntoTableReplace d t rowChan b =
           (Returned (int (length vss), None),
            d\<lparr>conn_trace := conn_trace d @
               [TxExec set_foreign_key_checks None,
                TxExec (''replace into '' @ t @ '' values ''
                        @ strings_Join (map (\<lambda>vals. ''('' @ strings_Join vals '','' @ '')'') vss) '','')
                  None]\<rparr>,
            drop (max 1 (nat b)) rowChan)"
proof -
  from assms(3) have enc: "map (rowValuesReplace columns) (take (quota b) rowChan) = map Returned vss"
    by (simp add: quota_def)
  note run = replace_rows_first [OF enc, of "''replace into '' @ t @ '' values ''"]
  have "length vss = length (take (quota b) rowChan)"
    using enc by (metis length_map)
  with assms(2) have "int (length vss) \<noteq> 0"
    by (simp add: quota_def)
  with run assms(1,4) show ?thesis
    by (simp add: insertIntoTableReplace_def txn_Exec_def answer_def emit_def quota_def row_group_fun)
qed

text \<open>
  Two rows, the first with a name that holds a quote and a comma: both stand in the
  statement unchanged.
\<close>

theorem replace_statement_text_witness:
  "reader_GetColumns demo_dumper ''t'' = Inr [''id'', ''name''] \<and> quoted_rows \<noteq> []
   \<and> map (rowValuesReplace [''id'', ''name'']) (take (max 1 (nat 2)) quoted_rows)
        = map Returned [[''1'', ''O'' @ [squote] @ ''Neil, Jr''], [''2'', ''NULL'']]
   \<and> conn_faults demo_dumper = []
   \<and> fst (insertIntoTableReplace demo_dumper ''t'' quoted_rows 2) = Returned (2, None)
   \<and> conn_trace (fst (snd (insertIntoTableReplace demo_dumper ''t'' quoted_rows 2))) =
        [TxExec ''SET foreign_key_checks = 0;'' None,
         TxExec (''replace into t values (1,O'' @ [squote] @ ''Neil, Jr),(2,NULL)'') None]"
proof -
  have h1: "reader_GetColumns demo_dumper ''t'' = Inr [''id'', ''name'']"
    and h4: "conn_faults demo_dumper = []" and tr: "conn_trace demo_dumper = []"
    by (simp_all add: demo_dumper_def NewDumper_def demo_reader_def)
  have h2: "quoted_rows \<noteq> []"
    by (simp add: quoted_rows_def)
  have h3: "map (rowValuesReplace [''id'', ''name'']) (take (max 1 (nat 2)) quoted_rows)
        = map Returned [[''1'', ''O'' @ [squote] @ ''Neil, Jr''], [''2'', ''NULL'']]"
    by (simp add: quoted_rows_def rowValuesReplace_def index_row_def null_def)
  from replace_statement_text [OF h1 h2 h3 h4] h1 h2 h3 h4 show ?thesis
    by (simp add: tr set_foreign_key_checks_def)
qed

subsection \<open>The size of a batch\<close>

lemma producer_bound:
  "producer columns b i rowChan d = (Returned n, d', ch) \<Longrightarrow> i \<le> n \<and> n \<le> max (i + 1) b"
proof (induction rowChan arbitrary: i d)
  case Nil
  then show ?case by simp
next
  case (Cons row rowChan)
  show ?case
  proof (cases "rowValues columns row")
    case (Panicked m)
    with Cons.prems show ?thesis by simp
  next
    case (Returned vals)
    show ?thesis
    proof (cases "i + 1 \<ge> b")
      case True
      with Cons.prems Returned show ?thesis by auto
    next
      case False
      with Cons.prems Returned
      have "producer columns b (i + 1) rowChan (emit (CsvWrite vals) d) = (Returned n, d', ch)"
        by simp
      from Cons.IH [OF this] False show ?thesis by simp
    qed
  qed
qed

lemma replace_rows_bound:
  "replace_rows columns b buf i rowChan = (Returned (buf', n), ch) \<Longrightarrow> i \<le> n \<and> n \<le> max (i + 1) b"
proof (induction rowChan arbitrary: i buf)
  case Nil
  then show ?case by simp
next
  case (Cons row rowChan)
  show ?case
  proof (cases "rowValuesReplace columns row")
    case (Panicked m)
    with Cons.prems show ?thesis by simp
  next
    case (Returned vals)
    show ?thesis
    proof (cases "i + 1 \<ge> b")
      case True
      with Cons.prems Returned show ?thesis by (auto simp: Let_def)
    next
      case False
      with Cons.prems Returned
      have "replace_rows columns b ((if i \<noteq> 0 then buf @ '','' else buf) @ ''('' @ strings_Join vals '','' @ '')'')
              (i + 1) rowChan = (Returned (buf', n), ch)"
        by (simp add: Let_def)
      from Cons.IH [OF this] False show ?thesis by simp
    qed
  qed
qed

lemma insertIntoTable_bound:
  assumes "insertIntoTable d t rowChan b = (Returned (n, err), d', ch)"
  shows "0 \<le> n \<and> n \<le> max 1 b"
proof (cases "reader_GetColumns d t")
  case (Inl e)
  with assms show ?thesis by (simp add: insertIntoTable_def)
next
  case (Inr columns)
  obtain r1 d1 ch1 where p: "producer columns b 0 rowChan d = (r1, d1, ch1)"
    by (cases "producer columns b 0 rowChan d") auto
  show ?thesis
  proof (cases r1)
    case (Panicked m)
    with assms Inr p show ?thesis by (simp add: insertIntoTable_def)
  next
    case (Returned inserted)
    with p have "0 \<le> inserted \<and> inserted \<le> max 1 b"
      using producer_bound [of columns b 0 rowChan d inserted d1 ch1] by simp
    with assms Inr p Returned show ?thesis
      by (auto simp: insertIntoTable_def split: prod.splits option.splits)
  qed
qed

lemma insertIntoTableReplace_bound:
  assumes "insertIntoTableReplace d t rowChan b = (Returned (n, err), d', ch)"
  shows "0 \<le> n \<and> n \<le> max 1 b"
proof (cases "reader_GetColumns d t")
  case (Inl e)
  with assms show ?thesis by (simp add: insertIntoTableReplace_def)
next
  case (Inr columns)
  obtain r1 ch1 where p: "replace_rows columns b (''replace into '' @ t @ '' values '') 0 rowChan = (r1, ch1)"
    by (cases "replace_rows columns b (''replace into '' @ t @ '' values '') 0 rowChan") auto
  show ?thesis
  proof (cases r1)
    case (Panicked m)
    with assms Inr p show ?thesis by (simp add: insertIntoTableReplace_def)
  next
    case (Returned res)
    obtain buf inserted where res: "res = (buf, inserted)" by (cases res)
    with p Returned have "0 \<le> inserted \<and> inserted \<le> max 1 b"
      using replace_rows_bound [of columns b _ 0 rowChan buf inserted ch1] by simp
    with assms Inr p Returned res show ?thesis
      by (auto simp: insertIntoTableReplace_def split: prod.splits option.splits if_splits)
  qed
qed

text \<open>
  C8, as the code has it: the count a batch invocation of either strategy returns is
  never negative and never more than the larger of 1 and the batch size. So it never
  exceeds a batch size of at least 1; for a batch size of zero or less it can be 1.
\<close>

theorem batch_count_bound:
  "(fst (insertIntoTable d t rowChan b) = Returned (n, err) \<longrightarrow> 0 \<le> n \<and> n \<le> max 1 b)
   \<and> (fst (insertIntoTableReplace d t rowChan b) = Returned (n, err) \<longrightarrow> 0 \<le> n \<and> n \<le> max 1 b)"
proof -
  have "0 \<le> n \<and> n \<le> max 1 b" if "fst (insertIntoTable d t rowChan b) = Returned (n, err)"
    using that insertIntoTable_bound [of d t rowChan b n err]
    by (cases "insertIntoTable d t rowChan b") auto
  moreover have "0 \<le> n \<and> n \<le> max 1 b" if "fst (insertIntoTableReplace d t rowChan b) = Returned (n, err)"
    using that insertIntoTableReplace_bound [of d t rowChan b n err]
    by (cases "insertIntoTableReplace d t rowChan b") auto
  ultimately show ?thesis by blast
qed

text \<open>Five rows and a batch size of two: both strategies return 2.\<close>

theorem batch_count_bound_witness:
  "fst (insertIntoTable demo_dumper ''t'' demo_rows 2) = Returned (2, None)
   \<and> fst (insertIntoTableReplace demo_dumper ''t'' demo_rows 2) = Returned (2, None)
   \<and> (0::int) \<le> 2 \<and> (2::int) \<le> max 1 2"
proof -
  have a: "fst (insertIntoTable demo_dumper ''t'' demo_rows 2) = Returned (2, None)"
    by (simp add: insertIntoTable_def demo_dumper_def NewDumper_def
      demo_reader_def demo_rows_def demo_row_def rowValues_def index_row_def
      txn_Exec_def answer_def emit_def)
  have b: "fst (insertIntoTableReplace demo_dumper ''t'' demo_rows 2) = Returned (2, None)"
    by (simp add: insertIntoTableReplace_def demo_dumper_def NewDumper_def
      demo_reader_def demo_rows_def demo_row_def rowValuesReplace_def index_row_def
      txn_Exec_def answer_def emit_def)
  from batch_count_bound [of demo_dumper "''t''" demo_rows 2 2 None] a b show ?thesis
    by simp
qed

text \<open>
  With a batch size of zero and rows on the channel, both strategies return 1, which
  exceeds the batch size.
\<close>

theorem batch_count_exceeds_zero_batch:
  "fst (insertIntoTable zero_dumper ''t'' demo_rows 0) = Returned (1, None)
   \<and> fst (insertIntoTableReplace zero_dumper ''t'' demo_rows 0) = Returned (1, None)
   \<and> \<not> (1::int) \<le> 0"
  by (simp add: insertIntoTable_def insertIntoTableReplace_def zero_dumper_def NewDumper_def
      demo_reader_def demo_rows_def demo_row_def rowValues_def rowValuesReplace_def index_row_def
      txn_Exec_def answer_def emit_def)

subsection \<open>Errors of a batch\<close>

text \<open>
  Whenever the first batch of a table comes back from \<open>trunkInsert\<close> with an
  error, DumpTable panics with that error.
\<close>

lemma trunkInsert_error_panics:
  assumes "fst (setGlobalInline_Do d) = None"
    and "fst (trunkInsert (snd (setGlobalInline_Do d)) t rowChan (batch (snd (setGlobalInline_Do d))))
           = Returned (n, Some e)"
  shows "map_option fst (DumpTable d t rowChan) = Some (Panicked e)"
proof -
  obtain d1 where do: "setGlobalInline_Do d = (None, d1)"
    using assms(1) by (cases "setGlobalInline_Do d") auto
  obtain d2 ch where tr: "trunkInsertWith insertIntoTable d1 t rowChan (batch d1) = (Returned (n, Some e), d2, ch)"
    using assms(2) do by (cases "trunkInsertWith insertIntoTable d1 t rowChan (batch d1)") (auto simp: trunkInsert_def)
  have "tableLoop insertIntoTable d1 t rowChan (batch d1) (batch d1) = Some (Panicked e, d2, ch)"
    using tr by (subst tableLoop.simps) simp
  with do show ?thesis
    by (simp add: DumpTable_def DumpTableWith_def)
qed

text \<open>
  C3: an error of a batch insertion should reach the caller of DumpTable as an error
  result and leave the process running. The code does not do that. Here the guard
  passes and the server refuses the first transaction: \<open>trunkInsert\<close> returns the
  error, wrapped, and DumpTable hands it to \<open>log.Panic\<close>, so the call panics
  instead of returning it.
\<close>

theorem DumpTable_panics_on_batch_error:
  "fst (setGlobalInline_Do refused_dumper) = None
   \<and> fst (trunkInsert (snd (setGlobalInline_Do refused_dumper)) ''t'' demo_rows
            (batch (snd (setGlobalInline_Do refused_dumper))))
        = Returned (0, Some ''failed to open transaction: connection refused'')
   \<and> map_option fst (DumpTable refused_dumper ''t'' demo_rows)
        = Some (Panicked ''failed to open transaction: connection refused'')"
proof -
  have a: "fst (setGlobalInline_Do refused_dumper) = None"
    by (simp add: refused_dumper_def NewDumper_def setGlobalInline_Do_def conn_QueryRow_Scan_def
        answer_def emit_def)
  have b: "fst (trunkInsert (snd (setGlobalInline_Do refused_dumper)) ''t'' demo_rows
            (batch (snd (setGlobalInline_Do refused_dumper))))
        = Returned (0, Some ''failed to open transaction: connection refused'')"
    by (simp add: refused_dumper_def NewDumper_def setGlobalInline_Do_def conn_QueryRow_Scan_def
        answer_def emit_def trunkInsert_def trunkInsertWith_def conn_Begin_def)
  from trunkInsert_error_panics [OF a b] a b show ?thesis
    by simp
qed

subsection \<open>The local_infile guard\<close>

lemma same_guard_refl [simp]: "same_guard d d"
  by (simp add: same_guard_def)

lemma same_guard_trans: "same_guard a b \<Longrightarrow> same_guard b c \<Longrightarrow> same_guard a c"
  by (simp add: same_guard_def)

lemma same_guard_answer: "answer d = (r, d') \<Longrightarrow> same_guard d d'"
  by (auto simp: answer_def same_guard_def split: list.splits)

lemma same_guard_emit: "\<not> is_global e \<Longrightarrow> same_guard d (emit e d)"
  by (simp add: emit_def same_guard_def global_events_def)

lemma same_guard_txn_Exec: "txn_Exec s d = (r, d') \<Longrightarrow> same_guard d d'"
  by (auto simp: txn_Exec_def split: prod.splits
      intro: same_guard_trans [OF same_guard_answer same_guard_emit])

lemma same_guard_conn_Begin: "conn_Begin d = (r, d') \<Longrightarrow> same_guard d d'"
  by (auto simp: conn_Begin_def split: prod.splits
      intro: same_guard_trans [OF same_guard_answer same_guard_emit])

lemma same_guard_txn_Commit: "txn_Commit d = (r, d') \<Longrightarrow> same_guard d d'"
  by (auto simp: txn_Commit_def split: prod.splits
      intro: same_guard_trans [OF same_guard_answer same_guard_emit])

lemma same_guard_txn_Rollback: "txn_Rollback d = (r, d') \<Longrightarrow> same_guard d d'"
  by (auto simp: txn_Rollback_def split: prod.splits
      intro: same_guard_trans [OF same_guard_answer same_guard_emit])

lemma same_guard_producer: "producer columns b i rowChan d = (r, d', ch) \<Longrightarrow> same_guard d d'"
proof (induction rowChan arbitrary: i d)
  case Nil
  then show ?case by simp
next
  case (Cons row rowChan)
  show ?case
  proof (cases "rowValues columns row")
    case (Panicked m)
    with Cons.prems show ?thesis by simp
  next
    case (Returned vals)
    have e: "same_guard d (emit (CsvWrite vals) d)"
      by (rule same_guard_emit) simp
    show ?thesis
    proof (cases "i + 1 \<ge> b")
      case True
      with Cons.prems Returned e show ?thesis by auto
    next
      case False
      with Cons.prems Returned
      have "producer columns b (i + 1) rowChan (emit (CsvWrite vals) d) = (r, d', ch)"
        by simp
      from same_guard_trans [OF e Cons.IH [OF this]] show ?thesis .
    qed
  qed
qed

lemma same_guard_insertIntoTable:
  assumes "insertIntoTable d t rowChan b = (r, d', ch)"
  shows "same_guard d d'"
proof (cases "reader_GetColumns d t")
  case (Inl e)
  with assms show ?thesis by (simp add: insertIntoTable_def)
next
  case (Inr columns)
  obtain r1 d1 ch1 where p: "producer columns b 0 rowChan d = (r1, d1, ch1)"
    by (cases "producer columns b 0 rowChan d") auto
  note g1 = same_guard_producer [OF p]
  show ?thesis
  proof (cases r1)
    case (Panicked m)
    with assms Inr p g1 show ?thesis by (simp add: insertIntoTable_def)
  next
    case (Returned inserted)
    obtain e2 d2 where x2: "txn_Exec set_foreign_key_checks d1 = (e2, d2)"
      by (cases "txn_Exec set_foreign_key_checks d1") auto
    note g2 = same_guard_trans [OF g1 same_guard_txn_Exec [OF x2]]
    show ?thesis
    proof (cases e2)
      case (Some e)
      with assms Inr p Returned x2 g2 show ?thesis by (simp add: insertIntoTable_def)
    next
      case None
      obtain e3 d3 where x3: "txn_Exec (load_data_query t (map quoteIdentifier columns)) d2 = (e3, d3)"
        by (cases "txn_Exec (load_data_query t (map quoteIdentifier columns)) d2") auto
      note g3 = same_guard_trans [OF g2 same_guard_txn_Exec [OF x3]]
      from assms Inr p Returned x2 None x3 g3 show ?thesis
        by (cases e3) (simp_all add: insertIntoTable_def)
    qed
  qed
qed

lemma same_guard_trunkInsertWith:
  assumes ins: "\<And>d t rowChan b r d' ch. ins d t rowChan b = (r, d', ch) \<Longrightarrow> same_guard d d'"
    and run: "trunkInsertWith ins d t rowChan b = (r, d', ch)"
  shows "same_guard d d'"
proof -
  obtain e1 d1 where x1: "conn_Begin d = (e1, d1)"
    by (cases "conn_Begin d") auto
  note g1 = same_guard_conn_Begin [OF x1]
  show ?thesis
  proof (cases e1)
    case (Some e)
    with run x1 g1 show ?thesis by (simp add: trunkInsertWith_def)
  next
    case None
    obtain r2 d2 ch2 where x2: "ins d1 t rowChan b = (r2, d2, ch2)"
      by (cases "ins d1 t rowChan b") auto
    note g2 = same_guard_trans [OF g1 ins [OF x2]]
    show ?thesis
    proof (cases r2)
      case (Panicked m)
      with run x1 None x2 g2 show ?thesis by (simp add: trunkInsertWith_def)
    next
      case (Returned res)
      obtain n err where res: "res = (n, err)" by (cases res)
      show ?thesis
      proof (cases err)
        case ok: None
        have g3: "same_guard d (emit (LogDebugInserted t n) d2)"
          by (rule same_guard_trans [OF g2 same_guard_emit]) simp
        obtain e4 d4 where x4: "txn_Commit (emit (LogDebugInserted t n) d2) = (e4, d4)"
          by (cases "txn_Commit (emit (LogDebugInserted t n) d2)") auto
        note g4 = same_guard_trans [OF g3 same_guard_txn_Commit [OF x4]]
        from run x1 None x2 Returned res ok x4 g4 show ?thesis
          by (cases e4) (simp_all add: trunkInsertWith_def)
      next
        case (Some e)
        obtain e3 d3 where x3: "txn_Rollback d2 = (e3, d3)"
          by (cases "txn_Rollback d2") auto
        note g3 = same_guard_trans [OF g2 same_guard_txn_Rollback [OF x3]]
        show ?thesis
        proof (cases e3)
          case None
          with run x1 \<open>e1 = None\<close> x2 Returned res Some x3 g3 show ?thesis
            by (simp add: trunkInsertWith_def)
        next
          case (Some re)
          have "same_guard d (emit (LogErrorRollback re) d3)"
            by (rule same_guard_trans [OF g3 same_guard_emit]) simp
          with run x1 \<open>e1 = None\<close> x2 Returned res \<open>err = Some e\<close> x3 Some show ?thesis
            by (simp add: trunkInsertWith_def)
        qed
      qed
    qed
  qed
qed

lemma guard_neutral_insertIntoTable: "guard_neutral insertIntoTable"
  unfolding guard_neutral_def by (blast intro: same_guard_insertIntoTable)

lemma same_guard_tableLoop:
  assumes run: "tableLoop ins d t rowChan b i = Some y"
  shows "guard_neutral ins \<longrightarrow> same_guard d (fst (snd y))"
  using run
proof (rule tableLoop.raw_induct [rotated 1,
      where P = "\<lambda>ins d t ch b i y. guard_neutral ins \<longrightarrow> same_guard d (fst (snd y))"])
  fix f :: "strategy \<Rightarrow> myDumper \<Rightarrow> string \<Rightarrow> Row list \<Rightarrow> int \<Rightarrow> int \<Rightarrow> (string option outcome \<times> myDumper \<times> Row list) option"
  fix ins d t ch b i y
  assume IH: "\<And>ins d t ch b i y. f ins d t ch b i = Some y \<Longrightarrow>
      guard_neutral ins \<longrightarrow> same_guard d (fst (snd y))"
  assume body: "(if i = b
      then case trunkInsertWith ins d t ch b of
           (Panicked m, d1, ch) \<Rightarrow> Some (Panicked m, d1, ch)
           | (Returned (n, None), d1, ch) \<Rightarrow> f ins d1 t ch b n
           | (Returned (n, Some e), d1, ch) \<Rightarrow> Some (Panicked e, d1, ch)
      else Some (Returned None, d, ch)) = Some y"
  show "guard_neutral ins \<longrightarrow> same_guard d (fst (snd y))"
  proof
    assume gn: "guard_neutral ins"
    show "same_guard d (fst (snd y))"
    proof (cases "i = b")
      case False
      with body show ?thesis by auto
    next
      case True
      obtain r1 d1 ch1 where x1: "trunkInsertWith ins d t ch b = (r1, d1, ch1)"
        by (cases "trunkInsertWith ins d t ch b") auto
      have g1: "same_guard d d1"
        using gn by (intro same_guard_trunkInsertWith [OF _ x1]) (unfold guard_neutral_def, blast)
      show ?thesis
      proof (cases r1)
        case (Panicked m)
        with body True x1 g1 show ?thesis by auto
      next
        case (Returned res)
        obtain n err where res: "res = (n, err)" by (cases res)
        show ?thesis
        proof (cases err)
          case (Some e)
          with body True x1 g1 Returned res show ?thesis by auto
        next
          case None
          with body True x1 Returned res have "f ins d1 t ch1 b n = Some y" by simp
          from IH [OF this] gn have "same_guard d1 (fst (snd y))" by simp
          with g1 show ?thesis by (rule same_guard_trans)
        qed
      qed
    qed
  qed
qed

lemma guard_inv_same: "same_guard d d' \<Longrightarrow> guard_inv d \<Longrightarrow> guard_inv d'"
  by (simp add: same_guard_def guard_inv_def)

lemma guard_inv_NewDumper: "guard_inv (NewDumper faults infile rdr b)"
  by (simp add: guard_inv_def guard_shape_def NewDumper_def global_events_def)

lemma guard_inv_server: "guard_inv d \<Longrightarrow> guard_inv (d\<lparr>conn_faults := faults, conn_local_infile := infile\<rparr>)"
  by (simp add: guard_inv_def guard_shape_def)

lemma guard_inv_Do:
  assumes "guard_inv d" "setGlobalInline_Do d = (r, d')"
  shows "guard_inv d'"
proof (cases "setGlobalInline d")
  case True
  with assms show ?thesis by (simp add: setGlobalInline_Do_def)
next
  case False
  with assms(1) have start: "global_events (conn_trace d) = []" "\<not> disableGlobalInline d"
    by (simp_all add: guard_inv_def guard_shape_def)
  with assms(2) False show ?thesis
    by (auto simp: setGlobalInline_Do_def conn_QueryRow_Scan_def conn_Exec_def answer_def emit_def
        guard_inv_def guard_shape_def global_events_def split: list.splits option.splits if_splits)
qed

lemma guard_inv_DumpTable:
  assumes "guard_inv d" "DumpTable d t rowChan = Some (res, d', ch')"
  shows "guard_inv d'"
proof -
  obtain r1 d1 where x1: "setGlobalInline_Do d = (r1, d1)"
    by (cases "setGlobalInline_Do d") auto
  note i1 = guard_inv_Do [OF assms(1) x1]
  show ?thesis
  proof (cases r1)
    case (Some e)
    with assms(2) x1 i1 show ?thesis by (simp add: DumpTable_def DumpTableWith_def)
  next
    case None
    with assms(2) x1 have "tableLoop insertIntoTable d1 t rowChan (batch d1) (batch d1) = Some (res, d', ch')"
      by (simp add: DumpTable_def DumpTableWith_def)
    from same_guard_tableLoop [OF this] guard_neutral_insertIntoTable
    have "same_guard d1 d'" by simp
    from guard_inv_same [OF this i1] show ?thesis .
  qed
qed

lemma session_guard_inv: "session d \<Longrightarrow> guard_inv d"
proof (induction rule: session.induct)
  case (new faults infile rdr b)
  show ?case by (rule guard_inv_NewDumper)
next
  case (dump d tableName rowChan res d' ch')
  then show ?case by (blast intro: guard_inv_DumpTable)
next
  case (server d faults infile)
  then show ?case by (blast intro: guard_inv_server)
qed

lemma filter_global:
  assumes "\<And>e. P e \<Longrightarrow> is_global e"
  shows "filter P tr = filter P (global_events tr)"
  unfolding global_events_def filter_filter
  by (rule filter_cong) (auto dest: assms)

lemma set_global: "is_global e \<Longrightarrow> (e \<in> set tr) = (e \<in> set (global_events tr))"
  by (simp add: global_events_def)

lemma infile_read_global: "infile_read e \<Longrightarrow> is_global e"
  by (cases e) simp_all

lemma infile_enable_global: "infile_enable e \<Longrightarrow> is_global e"
  by (cases e) simp_all

lemma infile_disable_global: "infile_disable e \<Longrightarrow> is_global e"
  by (cases e) simp_all

lemma Close_trace:
  "\<exists>r1 r2. conn_trace (snd (Close d)) =
     conn_trace d @ (if disableGlobalInline d then [ConnExec set_local_infile_0 r1] else []) @ [ConnClose r2]"
  by (auto simp: Close_def conn_Exec_def conn_Close_def answer_def emit_def
      split: list.splits option.splits prod.splits)

text \<open>
  C4: in every state of a session, whatever DumpTable calls led to it, the trace holds
  at most one read of the global local_infile and at most one statement enabling it; if
  a read found it enabled, no teardown is recorded; teardown is recorded exactly when
  this session's statement enabling it succeeded; and Close issues the statement
  disabling it exactly in that case.
\<close>

theorem local_infile_once:
  assumes "session d"
  shows "length (filter infile_read (conn_trace d)) \<le> 1
     \<and> length (filter infile_enable (conn_trace d)) \<le> 1
     \<and> (QueryRowScan select_local_infile (Inr True) \<in> set (conn_trace d) \<longrightarrow> \<not> disableGlobalInline d)
     \<and> (disableGlobalInline d = (ConnExec set_local_infile_1 None \<in> set (conn_trace d)))
     \<and> ((filter infile_disable (conn_trace (snd (Close d))) \<noteq> [])
          = (ConnExec set_local_infile_1 None \<in> set (conn_trace d)))"
proof -
  from assms have inv: "guard_inv d" by (rule session_guard_inv)
  have r: "filter infile_read (conn_trace d) = filter infile_read (global_events (conn_trace d))"
    by (rule filter_global) (rule infile_read_global)
  have e: "filter infile_enable (conn_trace d) = filter infile_enable (global_events (conn_trace d))"
    by (rule filter_global) (rule infile_enable_global)
  have z: "filter infile_disable (conn_trace d) = filter infile_disable (global_events (conn_trace d))"
    by (rule filter_global) (rule infile_disable_global)
  have m1: "(QueryRowScan select_local_infile (Inr True) \<in> set (conn_trace d))
      = (QueryRowScan select_local_infile (Inr True) \<in> set (global_events (conn_trace d)))"
    by (rule set_global) simp
  have m2: "(ConnExec set_local_infile_1 None \<in> set (conn_trace d))
      = (ConnExec set_local_infile_1 None \<in> set (global_events (conn_trace d)))"
    by (rule set_global) simp
  have ne: "set_local_infile_1 \<noteq> set_local_infile_0"
    by (simp add: set_local_infile_1_def set_local_infile_0_def)
  from inv have c1: "length (filter infile_read (conn_trace d)) \<le> 1"
    unfolding r by (auto simp: guard_inv_def guard_shape_def split: if_splits)
  from inv have c2: "length (filter infile_enable (conn_trace d)) \<le> 1"
    unfolding e by (auto simp: guard_inv_def guard_shape_def split: if_splits)
  from inv have c3: "QueryRowScan select_local_infile (Inr True) \<in> set (conn_trace d) \<longrightarrow> \<not> disableGlobalInline d"
    unfolding m1 by (auto simp: guard_inv_def guard_shape_def split: if_splits)
  from inv have c4: "disableGlobalInline d = (ConnExec set_local_infile_1 None \<in> set (conn_trace d))"
    unfolding m2 by (auto simp: guard_inv_def guard_shape_def split: if_splits)
  from inv ne have none: "filter infile_disable (conn_trace d) = []"
    unfolding z by (auto simp: guard_inv_def guard_shape_def split: if_splits)
  obtain r1 r2 where "conn_trace (snd (Close d)) =
     conn_trace d @ (if disableGlobalInline d then [ConnExec set_local_infile_0 r1] else []) @ [ConnClose r2]"
    using Close_trace by blast
  with none have c5: "(filter infile_disable (conn_trace (snd (Close d))) \<noteq> []) = disableGlobalInline d"
    by simp
  from c1 c2 c3 c4 c5 show ?thesis by simp
qed

text \<open>
  The state after a first DumpTable on a server that had local_infile disabled.
\<close>

theorem local_infile_once_witness:
  "\<exists>d'. DumpTable fresh_dumper ''t'' demo_rows = Some (Returned None, d', [])
     \<and> session d'
     \<and> length (filter infile_read (conn_trace d')) \<le> 1
     \<and> length (filter infile_enable (conn_trace d')) \<le> 1
     \<and> disableGlobalInline d' = (ConnExec set_local_infile_1 None \<in> set (conn_trace d'))
     \<and> (filter infile_disable (conn_trace (snd (Close d'))) \<noteq> [])
          = (ConnExec set_local_infile_1 None \<in> set (conn_trace d'))"
proof -
  have h: "1 \<le> batch fresh_dumper" "conn_faults fresh_dumper = []"
    "reader_GetColumns fresh_dumper ''t'' = Inr [''id'', ''name'']"
    by (simp_all add: fresh_dumper_def NewDumper_def demo_reader_def)
  have step: "\<exists>es. trunkInsertWith insertIntoTable d' ''t'' ch (batch fresh_dumper) =
               (Returned (int (length (take (nat (batch fresh_dumper)) ch)), None),
                d'\<lparr>conn_trace := conn_trace d' @ es\<rparr>, drop (nat (batch fresh_dumper)) ch)
             \<and> transactions es = 1 \<and> batch_counts es = [int (length (take (nat (batch fresh_dumper)) ch))]"
    if "conn_faults d' = []" "reader_GetColumns d' ''t'' = Inr [''id'', ''name'']"
      "rows_handled [''id'', ''name''] ch" for d' ch
    using streaming_step [OF h(1) that] .
  from DumpTableWith_run [of fresh_dumper "''t''" "[''id'', ''name'']" insertIntoTable demo_rows,
      OF h(1) step h(2,3) demo_rows_handled]
  obtain d' where run: "DumpTable fresh_dumper ''t'' demo_rows = Some (Returned None, d', [])"
    unfolding DumpTable_def by blast
  have "session fresh_dumper"
    unfolding fresh_dumper_def by (rule session.new)
  from session.dump [OF this run] have s: "session d'" .
  from local_infile_once [OF s] run s show ?thesis
    by blast
qed

subsection \<open>The error of Close\<close>

text \<open>
  What Close returns, by which of its two calls failed. When only one fails, the
  message is that failure's with its error; when neither fails there is no error; when
  both fail, the message names both failures and carries the error of the restore.
\<close>

lemma Close_errors:
  "(restore_error d = Some ge \<and> close_error d = Some ce
      \<longrightarrow> fst (Close d) = Some (''failed to close mysql connection and '' @ [backtick]
              @ ''SET GLOBAL local_infile=0'' @ [backtick] @ '': '' @ ge))
   \<and> (restore_error d = Some ge \<and> close_error d = None
      \<longrightarrow> fst (Close d) = Some (''failed '' @ [backtick] @ ''SET GLOBAL local_infile=0'' @ [backtick]
              @ '' please do this manually! : '' @ ge))
   \<and> (restore_error d = None \<and> close_error d = Some ce
      \<longrightarrow> fst (Close d) = Some (''failed to close mysql connection: '' @ ce))
   \<and> (restore_error d = None \<and> close_error d = None \<longrightarrow> fst (Close d) = None)"
  by (auto simp: Close_def restore_error_def close_error_def split: prod.splits option.splits)

text \<open>
  C9: when both the close of the connection and the restore of the global fail, the
  error returned should hold both failures, neither hiding the other. The code does not
  do that. Here the restore fails with "server has gone away" and the close with
  "broken pipe": the error returned carries the restore's error and the words that the
  close failed, and nothing of the close's own error; with the close failing with "EOF"
  instead, the error returned is the same.
\<close>

theorem Close_drops_close_error:
  "restore_error closing_dumper = Some ''server has gone away''
   \<and> close_error closing_dumper = Some ''broken pipe''
   \<and> restore_error closing_dumper_eof = Some ''server has gone away''
   \<and> close_error closing_dumper_eof = Some ''EOF''
   \<and> fst (Close closing_dumper) = Some (''failed to close mysql connection and '' @ [backtick]
              @ ''SET GLOBAL local_infile=0'' @ [backtick] @ '': server has gone away'')
   \<and> fst (Close closing_dumper_eof) = fst (Close closing_dumper)"
  by (simp add: Close_def restore_error_def close_error_def closing_dumper_eof_def closing_dumper_def
      conn_Exec_def conn_Close_def answer_def emit_def)

end
